theory Spec2Isabelle
  imports Complex_Main "HOL-Library.Multiset" "HOL-Library.Log_Nat"
begin

section \<open>Configuration (config.js)\<close>

text \<open>
  JavaScript numbers are modelled as exact rationals. Every stat of the game is an integer
  literal and every multiplier is a dyadic fraction, so the products and differences the
  combat code computes on them are exact in IEEE doubles as well. The string \<open>'Neutral'\<close>
  that the attack code uses beside the six gene names is a seventh constructor, and
  \<open>NoGene\<close> is the value \<open>undefined\<close> that \<open>genes[0]\<close> reads from an empty gene list.
\<close>

datatype gene = Red | Orange | Yellow | Green | Blue | Purple | Neutral | NoGene

definition GENES :: "gene list" where
  "GENES = [Red, Orange, Yellow, Green, Blue, Purple]"

definition TYPE_EFFECTIVENESS :: "(gene \<times> (gene \<times> rat) list) list" where
  "TYPE_EFFECTIVENESS =
    [(Red,    [(Orange, 3/2), (Yellow, 5/4), (Purple, 1/2), (Blue, 3/4)]),
     (Orange, [(Yellow, 3/2), (Green, 5/4), (Red, 1/2), (Purple, 3/4)]),
     (Yellow, [(Green, 3/2), (Blue, 5/4), (Orange, 1/2), (Red, 3/4)]),
     (Green,  [(Blue, 3/2), (Purple, 5/4), (Yellow, 1/2), (Orange, 3/4)]),
     (Blue,   [(Purple, 3/2), (Red, 5/4), (Green, 1/2), (Yellow, 3/4)]),
     (Purple, [(Red, 3/2), (Orange, 5/4), (Blue, 1/2), (Green, 3/4)])]"

text \<open>The stat table: character id, then \<open>[hp, attack, speed]\<close>.\<close>

definition CHARACTER_STATS :: "(string \<times> (int \<times> int \<times> int)) list" where
  "CHARACTER_STATS =
    [(''Red'', (120, 120, 40)),
     (''Orange'', (240, 80, 40)),
     (''Yellow'', (360, 40, 40)),
     (''Green'', (240, 40, 80)),
     (''Blue'', (120, 40, 120)),
     (''Purple'', (120, 80, 80)),
     (''Red-Red'', (144, 104, 48)),
     (''Orange-Orange'', (216, 72, 56)),
     (''Yellow-Yellow'', (312, 48, 48)),
     (''Green-Green'', (216, 56, 72)),
     (''Blue-Blue'', (144, 48, 104)),
     (''Purple-Purple'', (168, 72, 72)),
     (''Red-Orange'', (216, 88, 40)),
     (''Red-Yellow'', (300, 60, 40)),
     (''Red-Green'', (216, 56, 72)),
     (''Red-Blue'', (120, 60, 100)),
     (''Red-Purple'', (120, 88, 72)),
     (''Orange-Red'', (156, 108, 40)),
     (''Orange-Yellow'', (324, 52, 40)),
     (''Orange-Green'', (240, 48, 72)),
     (''Orange-Blue'', (156, 52, 96)),
     (''Orange-Purple'', (144, 80, 72)),
     (''Yellow-Red'', (180, 100, 40)),
     (''Yellow-Orange'', (264, 72, 40)),
     (''Yellow-Green'', (264, 40, 72)),
     (''Yellow-Blue'', (180, 40, 100)),
     (''Yellow-Purple'', (168, 72, 72)),
     (''Green-Red'', (156, 96, 52)),
     (''Green-Orange'', (240, 72, 48)),
     (''Green-Yellow'', (324, 40, 52)),
     (''Green-Blue'', (156, 40, 108)),
     (''Green-Purple'', (144, 72, 80)),
     (''Blue-Red'', (120, 100, 60)),
     (''Blue-Orange'', (216, 72, 56)),
     (''Blue-Yellow'', (300, 40, 60)),
     (''Blue-Green'', (216, 40, 88)),
     (''Blue-Purple'', (120, 72, 88)),
     (''Purple-Red'', (120, 108, 52)),
     (''Purple-Orange'', (216, 80, 48)),
     (''Purple-Yellow'', (288, 52, 52)),
     (''Purple-Green'', (216, 48, 80)),
     (''Purple-Blue'', (120, 52, 108))]"

definition ACTION_THRESHOLD :: rat where
  "ACTION_THRESHOLD = 1000"

definition TEAM_SIZE :: nat where
  "TEAM_SIZE = 3"

definition SPLASH_DAMAGE_MULTIPLIER :: rat where
  "SPLASH_DAMAGE_MULTIPLIER = 1/2"

datatype difficulty = EASY | NORMAL | HARD | EXTREME

fun smartMoveChance :: "difficulty \<Rightarrow> rat" where
  "smartMoveChance EASY = 0"
| "smartMoveChance NORMAL = 1/2"
| "smartMoveChance HARD = 4/5"
| "smartMoveChance EXTREME = 1"

section \<open>GameCharacter\<close>

text \<open>
  The object of class \<open>GameCharacter\<close>, with the \<open>stats\<close> object flattened into the
  record. \<open>isPlayer\<close> is \<open>null\<close> (here \<open>None\<close>) until battle setup assigns it.
\<close>

record character =
  cid :: string
  genes :: "gene list"
  unlocked :: bool
  hp :: rat
  maxHp :: rat
  attack :: rat
  speed :: rat
  isPlayer :: "bool option"

datatype attackType = Single | Splash

record attackObj =
  gene :: gene
  atype :: attackType

definition truthy :: "bool option \<Rightarrow> bool" where
  "truthy b = (b = Some True)"

definition getStatDistribution :: "string \<Rightarrow> int \<times> int \<times> int" where
  "getStatDistribution i =
     (case map_of CHARACTER_STATS i of Some s \<Rightarrow> s | None \<Rightarrow> (80, 80, 80))"

definition GameCharacter :: "string \<Rightarrow> gene list \<Rightarrow> bool \<Rightarrow> character" where
  "GameCharacter i gs u =
     (case getStatDistribution i of (h, a, s) \<Rightarrow>
        \<lparr>cid = i, genes = gs, unlocked = u, hp = of_int h, maxHp = of_int h,
         attack = of_int a, speed = of_int s, isPlayer = None\<rparr>)"

text \<open>
  For an empty gene list \<open>genes[0] === genes[1]\<close> compares \<open>undefined\<close> with itself, so the
  second branch is taken.
\<close>

definition getAttackGenes :: "character \<Rightarrow> attackObj list" where
  "getAttackGenes c =
     (case genes c of
        [g] \<Rightarrow> [\<lparr>gene = g, atype = Single\<rparr>, \<lparr>gene = Neutral, atype = Single\<rparr>]
      | g0 # g1 # _ \<Rightarrow>
          (if g0 = g1 then [\<lparr>gene = g0, atype = Single\<rparr>, \<lparr>gene = g0, atype = Splash\<rparr>]
           else [\<lparr>gene = g0, atype = Single\<rparr>, \<lparr>gene = g1, atype = Single\<rparr>])
      | [] \<Rightarrow> [\<lparr>gene = NoGene, atype = Single\<rparr>, \<lparr>gene = NoGene, atype = Splash\<rparr>])"

text \<open>
  \<open>TYPE_EFFECTIVENESS[attackGene]?.[defendingGene] || 1.0\<close>: a missing row, a missing
  entry (also for a defender without genes, whose \<open>genes[0]\<close> is \<open>undefined\<close>) and a
  zero entry all give 1.
\<close>

definition getEffectiveness :: "gene \<Rightarrow> character \<Rightarrow> rat" where
  "getEffectiveness attackGene defendingCharacter =
     (if attackGene = Neutral then 1
      else case genes defendingCharacter of
             [] \<Rightarrow> 1
           | defendingGene # _ \<Rightarrow>
               (case map_of TYPE_EFFECTIVENESS attackGene of
                  None \<Rightarrow> 1
                | Some row \<Rightarrow>
                    (case map_of row defendingGene of
                       None \<Rightarrow> 1
                     | Some m \<Rightarrow> if m = 0 then 1 else m)))"

definition calculateDamage :: "character \<Rightarrow> gene \<Rightarrow> character \<Rightarrow> rat" where
  "calculateDamage this attackGene defendingCharacter =
     attack this * getEffectiveness attackGene defendingCharacter"

text \<open>\<open>takeDamage\<close> returns the updated object and whether hp is now 0.\<close>

definition takeDamage :: "character \<Rightarrow> rat \<Rightarrow> character \<times> bool" where
  "takeDamage this damage =
     (let c = this\<lparr>hp := max 0 (hp this - damage)\<rparr> in (c, hp c = 0))"

definition resetForBattle :: "character \<Rightarrow> character" where
  "resetForBattle c = c\<lparr>hp := maxHp c\<rparr>"

definition isAlive :: "character \<Rightarrow> bool" where
  "isAlive c = (hp c > 0)"

text \<open>
  \<open>(hp / maxHp) * 100\<close>. A division by zero gives an infinity or \<open>NaN\<close>, which the
  comparisons of the callers read as JavaScript does.
\<close>

datatype quotient = Finite rat | PlusInfinity | MinusInfinity | NotANumber

definition getHealthPercentage :: "character \<Rightarrow> quotient" where
  "getHealthPercentage c =
     (if maxHp c \<noteq> 0 then Finite (hp c / maxHp c * 100)
      else if hp c > 0 then PlusInfinity
      else if hp c < 0 then MinusInfinity
      else NotANumber)"

fun isBelow :: "quotient \<Rightarrow> rat \<Rightarrow> bool" where
  "isBelow (Finite x) y = (x < y)"
| "isBelow PlusInfinity y = False"
| "isBelow MinusInfinity y = True"
| "isBelow NotANumber y = False"

fun isAbove :: "quotient \<Rightarrow> rat \<Rightarrow> bool" where
  "isAbove (Finite x) y = (x > y)"
| "isAbove PlusInfinity y = True"
| "isAbove MinusInfinity y = False"
| "isAbove NotANumber y = False"

definition clone :: "character \<Rightarrow> character" where
  "clone c = (GameCharacter (cid c) (genes c) (unlocked c))\<lparr>isPlayer := isPlayer c\<rparr>"

datatype rarity = Common | Uncommon | Rare

definition getRarity :: "character \<Rightarrow> rarity" where
  "getRarity c =
     (case genes c of
        [g] \<Rightarrow> Common
      | g0 # g1 # _ \<Rightarrow> (if g0 = g1 then Uncommon else Rare)
      | [] \<Rightarrow> Uncommon)"

section \<open>The advantage wheel, as the specification words it\<close>

text \<open>
  One step forward on the wheel Red, Orange, Yellow, Green, Blue, Purple, Red. Only the
  six genes of \<open>GENES\<close> are on the wheel; the other two values step to themselves and
  have no relation to anything.
\<close>

fun wheelNext :: "gene \<Rightarrow> gene" where
  "wheelNext Red = Orange"
| "wheelNext Orange = Yellow"
| "wheelNext Yellow = Green"
| "wheelNext Green = Blue"
| "wheelNext Blue = Purple"
| "wheelNext Purple = Red"
| "wheelNext Neutral = Neutral"
| "wheelNext NoGene = NoGene"

definition wheelMultiplier :: "gene \<Rightarrow> gene \<Rightarrow> rat" where
  "wheelMultiplier a d =
     (if a = Neutral then 1
      else if a \<notin> set GENES \<or> d \<notin> set GENES then 1
      else if d = wheelNext a then 3/2
      else if d = wheelNext (wheelNext a) then 5/4
      else if a = wheelNext d then 1/2
      else if a = wheelNext (wheelNext d) then 3/4
      else 1)"

definition MULTIPLIERS :: "rat set" where
  "MULTIPLIERS = {1/2, 3/4, 1, 5/4, 3/2}"

section \<open>BattleSystem\<close>

text \<open>
  Characters are objects that the teams, the turn lists and the callers share by
  reference: the state holds a store from addresses to objects, and every list of
  characters is a list of addresses. An action bar holds a number or \<open>NaN\<close>; a key
  absent from the map reads \<open>undefined\<close>.
\<close>

type_synonym addr = nat

datatype jsnum = Num rat | NaN

datatype phase = Setup | Battle | Ended

record battle =
  heap :: "addr \<Rightarrow> character"
  nextFree :: addr
  playerTeam :: "addr list"
  enemyTeam :: "addr list"
  turnQueue :: "addr list"
  battlePhase :: phase
  battleLog :: "(string \<times> string) list"
  difficulty :: difficulty
  actionBars :: "string \<rightharpoonup> jsnum"
  turnHistory :: "addr list"
  upcomingTurns :: "addr list"
  isProcessingTurn :: bool
  attackButtonsDisabled :: bool
  selectedAttackObj :: "attackObj option"
  aiTurnTimer :: "nat option"
  nextTurnTimer :: "nat option"

definition getCharId :: "character \<Rightarrow> string" where
  "getCharId c = cid c @ ''-'' @ (if truthy (isPlayer c) then ''P'' else ''E'')"

definition charKey :: "battle \<Rightarrow> addr \<Rightarrow> string" where
  "charKey st = (\<lambda>a. getCharId (heap st a))"

definition alive :: "battle \<Rightarrow> addr \<Rightarrow> bool" where
  "alive st = (\<lambda>a. isAlive (heap st a))"

text \<open>\<open>[...this.playerTeam, ...this.enemyTeam].filter(char => char.isAlive())\<close>\<close>

definition allAlive :: "battle \<Rightarrow> addr list" where
  "allAlive st = filter (alive st) (playerTeam st @ enemyTeam st)"

text \<open>\<open>Array.prototype.indexOf\<close> on object references: the first position, or -1.\<close>

fun indexOf :: "addr list \<Rightarrow> addr \<Rightarrow> int" where
  "indexOf [] x = -1"
| "indexOf (y # ys) x =
     (if y = x then 0 else (let i = indexOf ys x in if i < 0 then -1 else i + 1))"

text \<open>
  The comparator of \<open>readyChars.sort\<close>. \<open>!==\<close> holds between different values and
  between \<open>NaN\<close> and anything; a difference that is not a number is \<open>NaN\<close>, which
  the sort reads as 0.
\<close>

definition turnCmp :: "battle \<Rightarrow> (string \<rightharpoonup> jsnum) \<Rightarrow> addr \<Rightarrow> addr \<Rightarrow> rat" where
  "turnCmp st simActionBars a b =
     (let aBar = simActionBars (charKey st a);
          bBar = simActionBars (charKey st b);
          ca = heap st a;
          cb = heap st b
      in if aBar \<noteq> bBar \<or> aBar = Some NaN then
           (case (aBar, bBar) of (Some (Num x), Some (Num y)) \<Rightarrow> y - x | _ \<Rightarrow> 0)
         else if speed ca \<noteq> speed cb then speed ca - speed cb
         else if isPlayer ca \<noteq> isPlayer cb then (if truthy (isPlayer ca) then -1 else 1)
         else of_int
           ((if truthy (isPlayer ca) then indexOf (playerTeam st) a else indexOf (enemyTeam st) a)
            - (if truthy (isPlayer cb) then indexOf (playerTeam st) b else indexOf (enemyTeam st) b)))"

text \<open>
  \<open>Array.prototype.sort\<close> is stable; it is modelled by the stable insertion sort, which
  every conforming sort agrees with when the comparator is a consistent ordering.
\<close>

fun insertBy :: "('a \<Rightarrow> 'a \<Rightarrow> rat) \<Rightarrow> 'a \<Rightarrow> 'a list \<Rightarrow> 'a list" where
  "insertBy cmp x [] = [x]"
| "insertBy cmp x (y # ys) = (if cmp x y \<le> 0 then x # y # ys else y # insertBy cmp x ys)"

definition sortBy :: "('a \<Rightarrow> 'a \<Rightarrow> rat) \<Rightarrow> 'a list \<Rightarrow> 'a list" where
  "sortBy cmp xs = foldr (insertBy cmp) xs []"

text \<open>\<open>if (simActionBars[charId] !== undefined) simActionBars[charId] += char.stats.speed\<close>\<close>

definition incBar :: "battle \<Rightarrow> addr \<Rightarrow> (string \<rightharpoonup> jsnum) \<Rightarrow> (string \<rightharpoonup> jsnum)" where
  "incBar st a bars =
     (case bars (charKey st a) of
        None \<Rightarrow> bars
      | Some NaN \<Rightarrow> bars
      | Some (Num v) \<Rightarrow> bars(charKey st a \<mapsto> Num (v + speed (heap st a))))"

definition isReady :: "battle \<Rightarrow> (string \<rightharpoonup> jsnum) \<Rightarrow> addr \<Rightarrow> bool" where
  "isReady st bars a =
     (case bars (charKey st a) of Some (Num v) \<Rightarrow> v \<ge> ACTION_THRESHOLD | _ \<Rightarrow> False)"

text \<open>\<open>bars[charId] -= ACTION_THRESHOLD\<close>; \<open>undefined - 1000\<close> is \<open>NaN\<close>.\<close>

definition consumeBar :: "(string \<rightharpoonup> jsnum) \<Rightarrow> string \<Rightarrow> (string \<rightharpoonup> jsnum)" where
  "consumeBar bars k =
     bars(k \<mapsto> (case bars k of Some (Num v) \<Rightarrow> Num (v - ACTION_THRESHOLD) | _ \<Rightarrow> NaN))"

definition consumeTurn ::
  "battle \<Rightarrow> addr \<Rightarrow> (string \<rightharpoonup> jsnum) \<times> addr list \<Rightarrow> (string \<rightharpoonup> jsnum) \<times> addr list" where
  "consumeTurn st a s = (consumeBar (fst s) (charKey st a), snd s @ [a])"

text \<open>One pass of the body of the \<open>while\<close> loop of \<open>calculateUpcomingTurns\<close>.\<close>

definition simTick ::
  "battle \<Rightarrow> addr list \<Rightarrow> (string \<rightharpoonup> jsnum) \<times> addr list \<Rightarrow> (string \<rightharpoonup> jsnum) \<times> addr list" where
  "simTick st allCharacters s =
     (let simActionBars = fold (incBar st) allCharacters (fst s);
          readyChars = filter (isReady st simActionBars) allCharacters
      in if length readyChars > 0
         then fold (consumeTurn st) (sortBy (turnCmp st simActionBars) readyChars)
                (simActionBars, snd s)
         else (simActionBars, snd s))"

text \<open>The loop: \<open>None\<close> when it never ends.\<close>

partial_function (option) simLoop ::
  "battle \<Rightarrow> nat \<Rightarrow> addr list \<Rightarrow> (string \<rightharpoonup> jsnum) \<times> addr list \<Rightarrow> addr list option" where
  "simLoop st numberOfTurns allCharacters s =
     (if length (snd s) < numberOfTurns
      then simLoop st numberOfTurns allCharacters (simTick st allCharacters s)
      else Some (snd s))"

declare simLoop.simps [code]

definition calculateUpcomingTurns :: "battle \<Rightarrow> nat \<Rightarrow> battle option" where
  "calculateUpcomingTurns st numberOfTurns =
     (let allCharacters = allAlive st
      in if length allCharacters = 0 then Some (st\<lparr>upcomingTurns := []\<rparr>)
         else case simLoop st numberOfTurns allCharacters (actionBars st, []) of
                None \<Rightarrow> None
              | Some turns \<Rightarrow> Some (st\<lparr>upcomingTurns := turns\<rparr>))"

definition createTurnQueue :: "battle \<Rightarrow> battle option" where
  "createTurnQueue st =
     (let allCharacters = allAlive st;
          st1 = st\<lparr>actionBars := fold (\<lambda>a b. b(charKey st a \<mapsto> Num 0)) allCharacters Map.empty\<rparr>
      in case calculateUpcomingTurns st1 20 of
           None \<Rightarrow> None
         | Some st2 \<Rightarrow> Some (st2\<lparr>turnQueue := take 6 (upcomingTurns st2)\<rparr>))"

definition getCurrentCharacter :: "battle \<Rightarrow> addr option" where
  "getCurrentCharacter st = (case upcomingTurns st of [] \<Rightarrow> None | a # _ \<Rightarrow> Some a)"

record turnInfo =
  nextCharacter :: "addr option"
  shownQueue :: "addr list"

definition nextTurn :: "battle \<Rightarrow> (turnInfo \<times> battle) option" where
  "nextTurn st =
     (case (case getCurrentCharacter st of
              None \<Rightarrow> Some st
            | Some currentChar \<Rightarrow>
                (let st1 = st\<lparr>actionBars := consumeBar (actionBars st) (charKey st currentChar)\<rparr>;
                     st2 = st1\<lparr>turnHistory := turnHistory st1 @ [hd (upcomingTurns st1)],
                               upcomingTurns := tl (upcomingTurns st1)\<rparr>
                 in case (if length (upcomingTurns st2) < 20
                          then calculateUpcomingTurns st2 20 else Some st2) of
                      None \<Rightarrow> None
                    | Some st3 \<Rightarrow> Some (st3\<lparr>turnQueue := take 6 (upcomingTurns st3)\<rparr>))) of
        None \<Rightarrow> None
      | Some st' \<Rightarrow>
          Some (\<lparr>nextCharacter = getCurrentCharacter st', shownQueue = turnQueue st'\<rparr>, st'))"

definition updateTurnQueue :: "battle \<Rightarrow> battle option" where
  "updateTurnQueue st =
     (let st1 = st\<lparr>actionBars :=
                 fold (\<lambda>a b. if \<not> alive st a then b(charKey st a := None) else b)
                   (playerTeam st @ enemyTeam st) (actionBars st)\<rparr>
      in case calculateUpcomingTurns st1 20 of
           None \<Rightarrow> None
         | Some st2 \<Rightarrow> Some (st2\<lparr>turnQueue := take 6 (upcomingTurns st2)\<rparr>))"

text \<open>\<open>this.id.replace(/-E\d+$/, '')\<close>: a final \<open>-E\<close> followed by digits is dropped.\<close>

definition isDigit :: "char \<Rightarrow> bool" where
  "isDigit c = (c \<in> set ''0123456789'')"

definition getDisplayName :: "character \<Rightarrow> string" where
  "getDisplayName c =
     (let r = rev (cid c); ds = takeWhile isDigit r; rest = dropWhile isDigit r
      in if ds \<noteq> [] \<and> take 2 rest = ''E-'' then rev (drop 2 rest) else cid c)"

datatype error = TypeError

record singleResult =
  attackerName :: string
  attackGene :: gene
  targetName :: string
  damage :: rat
  effectiveness :: rat
  targetDefeated :: bool

record splashTarget =
  name :: string
  splashDamage :: rat
  splashEffectiveness :: rat
  defeated :: bool

record splashResult =
  splashAttacker :: string
  splashGene :: gene
  targets :: "splashTarget list"

datatype turnResults = SingleResult singleResult | SplashResult splashResult

datatype side = Player | Enemy

datatype failReason = already_processing | invalid_attacker | no_targets

datatype turnOutcome =
  Failure failReason
| Success turnResults bool "side option"

text \<open>
  A missing target (\<open>null\<close> or \<open>undefined\<close>) makes the attack throw a \<open>TypeError\<close>
  before anything is written.
\<close>

definition processSingleAttack ::
  "battle \<Rightarrow> addr \<Rightarrow> gene \<Rightarrow> addr option \<Rightarrow> ((error + singleResult) \<times> battle) option" where
  "processSingleAttack st attacker g targetCharacter =
     (case targetCharacter of
        None \<Rightarrow> Some (Inl TypeError, st)
      | Some t \<Rightarrow>
          (let finalDamage = calculateDamage (heap st attacker) g (heap st t);
               eff = getEffectiveness g (heap st t);
               hit = takeDamage (heap st t) finalDamage;
               st1 = st\<lparr>heap := (heap st)(t := fst hit)\<rparr>;
               wasDefeated = snd hit;
               result = \<lparr>attackerName = getDisplayName (heap st1 attacker), attackGene = g,
                         targetName = getDisplayName (heap st1 t), damage = finalDamage,
                         effectiveness = eff, targetDefeated = wasDefeated\<rparr>
           in if wasDefeated
              then (case updateTurnQueue st1 of
                      None \<Rightarrow> None
                    | Some st2 \<Rightarrow> Some (Inr result, st2))
              else Some (Inr result, st1)))"

definition splashHit ::
  "addr \<Rightarrow> gene \<Rightarrow> addr \<Rightarrow> (addr \<Rightarrow> character) \<times> splashTarget list
     \<Rightarrow> (addr \<Rightarrow> character) \<times> splashTarget list" where
  "splashHit attacker g t s =
     (let h = fst s;
          singleDamage = calculateDamage (h attacker) g (h t);
          splashDmg = singleDamage * SPLASH_DAMAGE_MULTIPLIER;
          eff = getEffectiveness g (h t);
          hit = takeDamage (h t) splashDmg
      in (h(t := fst hit),
          snd s @ [\<lparr>name = getDisplayName (h t), splashDamage = splashDmg,
                     splashEffectiveness = eff, defeated = snd hit\<rparr>]))"

definition splashTargets :: "battle \<Rightarrow> addr \<Rightarrow> addr list" where
  "splashTargets st attacker =
     (if truthy (isPlayer (heap st attacker))
      then take 3 (filter (alive st) (enemyTeam st))
      else take 3 (filter (alive st) (playerTeam st)))"

definition processSplashAttack ::
  "battle \<Rightarrow> addr \<Rightarrow> gene \<Rightarrow> (splashResult \<times> battle) option" where
  "processSplashAttack st attacker g =
     (let hits = fold (splashHit attacker g) (splashTargets st attacker) (heap st, []);
          results = \<lparr>splashAttacker = getDisplayName (heap st attacker), splashGene = g,
                     targets = snd hits\<rparr>
      in case updateTurnQueue (st\<lparr>heap := fst hits\<rparr>) of
           None \<Rightarrow> None
         | Some st2 \<Rightarrow> Some (results, st2))"

definition clearAllTimers :: "battle \<Rightarrow> battle" where
  "clearAllTimers st = st\<lparr>aiTurnTimer := None, nextTurnTimer := None\<rparr>"

record battleEnd =
  ended :: bool
  winner :: "side option"

definition checkBattleEnd :: "battle \<Rightarrow> battleEnd \<times> battle" where
  "checkBattleEnd st =
     (let playerAlive = list_ex (alive st) (playerTeam st);
          enemyAlive = list_ex (alive st) (enemyTeam st)
      in if \<not> playerAlive \<or> \<not> enemyAlive
         then (\<lparr>ended = True, winner = Some (if playerAlive then Player else Enemy)\<rparr>,
               clearAllTimers (st\<lparr>battlePhase := Ended\<rparr>))
         else (\<lparr>ended = False, winner = None\<rparr>, st))"

text \<open>
  \<open>processTurn\<close>. An exception of the attack leaves the function at once, with the
  turn-in-progress flag still set.
\<close>

definition processTurn ::
  "battle \<Rightarrow> attackObj \<Rightarrow> addr option \<Rightarrow> ((error + turnOutcome) \<times> battle) option" where
  "processTurn st atk targetCharacter =
     (if isProcessingTurn st then Some (Inr (Failure already_processing), st)
      else
        let st1 = st\<lparr>isProcessingTurn := True\<rparr> in
        case getCurrentCharacter st1 of
          None \<Rightarrow> Some (Inr (Failure invalid_attacker), st1\<lparr>isProcessingTurn := False\<rparr>)
        | Some attacker \<Rightarrow>
            if \<not> alive st1 attacker
            then Some (Inr (Failure invalid_attacker), st1\<lparr>isProcessingTurn := False\<rparr>)
            else
              case (if atype atk = Splash
                    then (case processSplashAttack st1 attacker (gene atk) of
                            None \<Rightarrow> None
                          | Some (r, st2) \<Rightarrow> Some (Inr (SplashResult r), st2))
                    else (case processSingleAttack st1 attacker (gene atk) targetCharacter of
                            None \<Rightarrow> None
                          | Some (Inl e, st2) \<Rightarrow> Some (Inl e, st2)
                          | Some (Inr r, st2) \<Rightarrow> Some (Inr (SingleResult r), st2))) of
                None \<Rightarrow> None
              | Some (Inl e, st2) \<Rightarrow> Some (Inl e, st2)
              | Some (Inr turnResults, st2) \<Rightarrow>
                  (let be = checkBattleEnd st2
                   in if ended (fst be)
                      then Some (Inr (Success turnResults True (winner (fst be))),
                                 (snd be)\<lparr>isProcessingTurn := False\<rparr>)
                      else Some (Inr (Success turnResults False None),
                                 (snd be)\<lparr>isProcessingTurn := False\<rparr>)))"

definition getAvailableTargets :: "battle \<Rightarrow> addr list" where
  "getAvailableTargets st =
     (case getCurrentCharacter st of
        None \<Rightarrow> []
      | Some currentChar \<Rightarrow>
          if truthy (isPlayer (heap st currentChar))
          then filter (alive st) (enemyTeam st)
          else filter (alive st) (playerTeam st))"

text \<open>
  A state the scheduler can always extend: the action-bar keys of the team members are
  pairwise different, every speed is positive, and every living member has a numeric bar.
\<close>

definition schedulable :: "battle \<Rightarrow> bool" where
  "schedulable st \<longleftrightarrow>
     distinct (map (charKey st) (playerTeam st @ enemyTeam st))
     \<and> (\<forall>a \<in> set (playerTeam st @ enemyTeam st). 0 < speed (heap st a))
     \<and> (\<forall>a \<in> set (playerTeam st @ enemyTeam st).
           alive st a \<longrightarrow> (\<exists>v. actionBars st (charKey st a) = Some (Num v)))"

text \<open>
  Battle setup marks every member of the player team with \<open>isPlayer = true\<close> and every
  member of the enemy team with \<open>isPlayer = false\<close>.
\<close>

definition teamsMarked :: "battle \<Rightarrow> bool" where
  "teamsMarked st \<longleftrightarrow>
     (\<forall>a \<in> set (playerTeam st). isPlayer (heap st a) = Some True)
     \<and> (\<forall>a \<in> set (enemyTeam st). isPlayer (heap st a) = Some False)"

text \<open>The count of living members of a team, as the specification words battle end.\<close>

definition livingCount :: "battle \<Rightarrow> addr list \<Rightarrow> nat" where
  "livingCount st team = length (filter (alive st) team)"

text \<open>
  The tie-break chain in the specification's words: \<open>a\<close> acts before \<open>b\<close> when its
  action bar is higher; on a tie, when its base speed is lower; on a tie, when it is an
  ally and \<open>b\<close> an opponent; on a tie, when it stands earlier in its team list.
\<close>

definition barOf :: "battle \<Rightarrow> (string \<rightharpoonup> jsnum) \<Rightarrow> addr \<Rightarrow> rat" where
  "barOf st bars a = (case bars (charKey st a) of Some (Num v) \<Rightarrow> v | _ \<Rightarrow> 0)"

definition isAlly :: "battle \<Rightarrow> addr \<Rightarrow> bool" where
  "isAlly st a = truthy (isPlayer (heap st a))"

definition teamIndex :: "battle \<Rightarrow> addr \<Rightarrow> int" where
  "teamIndex st a = (if isAlly st a then indexOf (playerTeam st) a else indexOf (enemyTeam st) a)"

definition turnBefore :: "battle \<Rightarrow> (string \<rightharpoonup> jsnum) \<Rightarrow> addr \<Rightarrow> addr \<Rightarrow> bool" where
  "turnBefore st bars a b \<longleftrightarrow>
     barOf st bars a > barOf st bars b
     \<or> (barOf st bars a = barOf st bars b
         \<and> (speed (heap st a) < speed (heap st b)
             \<or> (speed (heap st a) = speed (heap st b)
                 \<and> ((isAlly st a \<and> \<not> isAlly st b)
                     \<or> (isAlly st a = isAlly st b \<and> teamIndex st a < teamIndex st b)))))"

text \<open>No action bar has reached the threshold: the state of the bars between two passes.\<close>

definition barsBelow :: "(string \<rightharpoonup> jsnum) \<Rightarrow> bool" where
  "barsBelow bars \<longleftrightarrow> (\<forall>k v. bars k = Some (Num v) \<longrightarrow> v < ACTION_THRESHOLD)"

section \<open>BattleAI\<close>

record singleEvaluation =
  score :: rat
  evalDamage :: rat
  evalEffectiveness :: rat
  threatScore :: rat
  willKill :: bool

record splashEvaluation =
  splashScore :: rat
  totalDamage :: rat
  killCount :: nat
  effectivenessBonus :: rat

text \<open>
  The average attack of an empty target list is \<open>0 / 0\<close>, which no attack exceeds.
\<close>

definition calculateThreatLevel :: "(addr \<Rightarrow> character) \<Rightarrow> addr \<Rightarrow> addr list \<Rightarrow> rat" where
  "calculateThreatLevel h target allTargets =
     (let t0 = 0;
          t1 = t0 + attack (h target) * (3/10);
          t2 = t1 + speed (h target) * (2/10);
          aboveAverage = (allTargets \<noteq> [] \<and>
             attack (h target) > sum_list (map (\<lambda>t. attack (h t)) allTargets)
                                   / of_nat (length allTargets));
          t3 = (if aboveAverage then t2 + 50 else t2);
          healthPercentage = getHealthPercentage (h target);
          t4 = (if isAbove healthPercentage 75 then t3 + 30
                else if isBelow healthPercentage 25 then t3 - 20 else t3)
      in case getRarity (h target) of
           Rare \<Rightarrow> t4 + 40
         | Uncommon \<Rightarrow> t4 + 20
         | Common \<Rightarrow> t4 + 10)"

definition evaluateSingleAttack ::
  "(addr \<Rightarrow> character) \<Rightarrow> addr \<Rightarrow> attackObj \<Rightarrow> addr \<Rightarrow> addr list \<Rightarrow> singleEvaluation" where
  "evaluateSingleAttack h attacker atk target allTargets =
     (let dmg = calculateDamage (h attacker) (gene atk) (h target);
          eff = getEffectiveness (gene atk) (h target);
          s0 = dmg;
          s1 = (if dmg \<ge> hp (h target) then s0 + 500 else s0);
          s2 = (if hp (h target) \<le> attack (h attacker) * (3/2) then s1 + 100 else s1);
          s3 = (if eff \<ge> 5/4 then s2 + 50 * eff else if eff \<le> 3/4 then s2 - 25 else s2);
          threat = calculateThreatLevel h target allTargets;
          s4 = s3 + threat;
          healthPercentage = getHealthPercentage (h target);
          s5 = (if isBelow healthPercentage 50 \<and> attack (h target) > attack (h attacker) * (4/5)
                then s4 + 75 else s4)
      in \<lparr>score = s5, evalDamage = dmg, evalEffectiveness = eff, threatScore = threat,
          willKill = (dmg \<ge> hp (h target))\<rparr>)"

definition splashStep ::
  "(addr \<Rightarrow> character) \<Rightarrow> addr \<Rightarrow> attackObj \<Rightarrow> addr \<Rightarrow> rat \<times> nat \<times> rat \<Rightarrow> rat \<times> nat \<times> rat" where
  "splashStep h attacker atk target acc =
     (case acc of (damageSum, kills, bonus) \<Rightarrow>
        (let eff = getEffectiveness (gene atk) (h target);
             dmg = (attack (h attacker) * eff) * SPLASH_DAMAGE_MULTIPLIER
         in (damageSum + dmg,
             (if dmg \<ge> hp (h target) then kills + 1 else kills),
             (if eff \<ge> 5/4 then bonus + 50 * eff else bonus))))"

definition evaluateSplashAttack ::
  "(addr \<Rightarrow> character) \<Rightarrow> addr \<Rightarrow> attackObj \<Rightarrow> addr list \<Rightarrow> splashEvaluation" where
  "evaluateSplashAttack h attacker atk availableTargets =
     (case fold (splashStep h attacker atk) availableTargets (0, 0, 0) of
        (damageSum, kills, bonus) \<Rightarrow>
          \<lparr>splashScore = damageSum + (of_nat kills * 200) + bonus, totalDamage = damageSum,
           killCount = kills, effectivenessBonus = bonus\<rparr>)"

text \<open>
  A move: the attack and the target, either of which is \<open>undefined\<close> (\<open>None\<close>) when it
  is read at index 0 of an empty array.
\<close>

record move =
  moveAttack :: "attackObj option"
  moveTarget :: "addr option"

definition first :: "'a list \<Rightarrow> 'a option" where
  "first xs = (case xs of [] \<Rightarrow> None | x # _ \<Rightarrow> Some x)"

text \<open>\<open>score > bestScore\<close>, where \<open>bestScore\<close> starts at \<open>-Infinity\<close> (\<open>None\<close>).\<close>

fun beats :: "rat \<Rightarrow> rat option \<Rightarrow> bool" where
  "beats x None = True"
| "beats x (Some b) = (x > b)"

definition considerSingle ::
  "(addr \<Rightarrow> character) \<Rightarrow> addr \<Rightarrow> addr list \<Rightarrow> attackObj \<Rightarrow> addr
     \<Rightarrow> move option \<times> rat option \<Rightarrow> move option \<times> rat option" where
  "considerSingle h attacker availableTargets atk target best =
     (let singleResult = evaluateSingleAttack h attacker atk target availableTargets
      in if beats (score singleResult) (snd best)
         then (Some \<lparr>moveAttack = Some atk, moveTarget = Some target\<rparr>, Some (score singleResult))
         else best)"

definition considerAttack ::
  "(addr \<Rightarrow> character) \<Rightarrow> addr \<Rightarrow> addr list \<Rightarrow> attackObj
     \<Rightarrow> move option \<times> rat option \<Rightarrow> move option \<times> rat option" where
  "considerAttack h attacker availableTargets atk best =
     (if atype atk = Splash
      then (let splashResult = evaluateSplashAttack h attacker atk availableTargets
            in if beats (splashScore splashResult) (snd best)
               then (Some \<lparr>moveAttack = Some atk, moveTarget = first availableTargets\<rparr>,
                     Some (splashScore splashResult))
               else best)
      else fold (considerSingle h attacker availableTargets atk) availableTargets best)"

definition calculateBestMove :: "(addr \<Rightarrow> character) \<Rightarrow> addr \<Rightarrow> addr list \<Rightarrow> move" where
  "calculateBestMove h attacker availableTargets =
     (let attackObjs = getAttackGenes (h attacker);
          best = fold (considerAttack h attacker availableTargets) attackObjs (None, None)
      in case fst best of
           Some bestMove \<Rightarrow> bestMove
         | None \<Rightarrow> \<lparr>moveAttack = first attackObjs, moveTarget = first availableTargets\<rparr>)"

record decision =
  success :: bool
  decisionAttack :: "attackObj option"
  decisionTarget :: "addr option"
  wasSmartMove :: bool
  decisionDifficulty :: difficulty

subsection \<open>The random choice\<close>

text \<open>
  \<open>Math.random() * array.length\<close> is computed on doubles: the result is the exact product
  rounded to the nearest double, a tie going to the even significand. A double has a
  significand of 53 bits; below 2 to the power -1022 the spacing stays 2 to the power
  -1074. The products
  here lie between 0 and the length of an array, far from the overflow threshold, which
  is left out.

  \<open>floorLog2 x\<close> is the exponent \<open>e\<close> of a positive \<open>x\<close>, where \<open>2 powi e \<le> x < 2 powi (e + 1)\<close>,
  and \<open>ulp x\<close> the spacing of the doubles around \<open>x\<close>.
\<close>

definition floorLog2 :: "rat \<Rightarrow> int" where
  "floorLog2 x =
     (case quotient_of x of (p, q) \<Rightarrow>
        (let e = bitlen p - bitlen q
         in if 2 powi e \<le> x then e else e - 1))"

definition roundHalfEven :: "rat \<Rightarrow> int" where
  "roundHalfEven x =
     (let f = \<lfloor>x\<rfloor>; d = x - of_int f
      in if d < 1/2 then f else if d > 1/2 then f + 1 else if even f then f else f + 1)"

definition ulp :: "rat \<Rightarrow> rat" where
  "ulp x = 2 powi (max (floorLog2 x) (- 1022) - 52)"

definition roundToDouble :: "rat \<Rightarrow> rat" where
  "roundToDouble x =
     (if x = 0 then 0 else sgn x * of_int (roundHalfEven (\<bar>x\<bar> / ulp \<bar>x\<bar>)) * ulp \<bar>x\<bar>)"

text \<open>
  The values \<open>Math.random()\<close> can return: the doubles from 0 inclusive to 1 exclusive.
\<close>

definition mathRandom :: "rat \<Rightarrow> bool" where
  "mathRandom r \<longleftrightarrow> 0 \<le> r \<and> r < 1 \<and> roundToDouble r = r"

text \<open>
  \<open>array[Math.floor(r * array.length)]\<close>, which is \<open>undefined\<close> (\<open>None\<close>) when the index is
  not one of the array.
\<close>

definition pick :: "rat \<Rightarrow> 'a list \<Rightarrow> 'a option" where
  "pick r xs =
     (let i = \<lfloor>roundToDouble (r * of_nat (length xs))\<rfloor>
      in if 0 \<le> i \<and> nat i < length xs then Some (xs ! nat i) else None)"

text \<open>
  \<open>makeDecision\<close>, with the values of its calls of \<open>Math.random()\<close> (numbers from 0
  inclusive to 1 exclusive) as parameters: \<open>r1\<close> decides between a smart and a random
  move, \<open>r2\<close> and \<open>r3\<close> pick the random attack and target.
\<close>

definition makeDecision ::
  "(addr \<Rightarrow> character) \<Rightarrow> difficulty \<Rightarrow> addr \<Rightarrow> addr list \<Rightarrow> rat \<Rightarrow> rat \<Rightarrow> rat \<Rightarrow> decision" where
  "makeDecision h d attacker availableTargets r1 r2 r3 =
     (let shouldMakeSmartMove = (r1 < smartMoveChance d);
          selected =
            (if shouldMakeSmartMove
             then (let bestMove = calculateBestMove h attacker availableTargets
                   in (moveAttack bestMove, moveTarget bestMove))
             else (pick r2 (getAttackGenes (h attacker)), pick r3 availableTargets))
      in \<lparr>success = True, decisionAttack = fst selected, decisionTarget = snd selected,
          wasSmartMove = shouldMakeSmartMove, decisionDifficulty = d\<rparr>)"

subsection \<open>The heuristic in the specification's words\<close>

text \<open>
  The candidates: every pair of a single attack and a target, and every splash attack
  once (with the first target, which a splash ignores).
\<close>

definition candidates :: "(addr \<Rightarrow> character) \<Rightarrow> addr \<Rightarrow> addr list \<Rightarrow> (attackObj \<times> addr) list" where
  "candidates h attacker availableTargets =
     concat (map (\<lambda>atk. if atype atk = Splash then map (\<lambda>t. (atk, t)) (take 1 availableTargets)
                         else map (\<lambda>t. (atk, t)) availableTargets)
               (getAttackGenes (h attacker)))"

definition candidateScore ::
  "(addr \<Rightarrow> character) \<Rightarrow> addr \<Rightarrow> addr list \<Rightarrow> attackObj \<times> addr \<Rightarrow> rat" where
  "candidateScore h attacker availableTargets c =
     (if atype (fst c) = Splash
      then splashScore (evaluateSplashAttack h attacker (fst c) availableTargets)
      else score (evaluateSingleAttack h attacker (fst c) (snd c) availableTargets))"

definition specThreatScore :: "(addr \<Rightarrow> character) \<Rightarrow> addr \<Rightarrow> addr list \<Rightarrow> rat" where
  "specThreatScore h target allTargets =
     (3/10) * attack (h target) + (2/10) * speed (h target)
     + (if allTargets \<noteq> [] \<and> attack (h target)
            > sum_list (map (\<lambda>t. attack (h t)) allTargets) / of_nat (length allTargets)
        then 50 else 0)
     + (if isAbove (getHealthPercentage (h target)) 75 then 30
        else if isBelow (getHealthPercentage (h target)) 25 then -20 else 0)
     + (case getRarity (h target) of Rare \<Rightarrow> 40 | Uncommon \<Rightarrow> 20 | Common \<Rightarrow> 10)"

definition specSingleScore ::
  "(addr \<Rightarrow> character) \<Rightarrow> addr \<Rightarrow> gene \<Rightarrow> addr \<Rightarrow> addr list \<Rightarrow> rat" where
  "specSingleScore h attacker g target allTargets =
     (let dmg = attack (h attacker) * getEffectiveness g (h target);
          eff = getEffectiveness g (h target)
      in dmg
         + (if dmg \<ge> hp (h target) then 500 else 0)
         + (if hp (h target) \<le> (3/2) * attack (h attacker) then 100 else 0)
         + (if eff \<ge> 5/4 then 50 * eff else if eff \<le> 3/4 then -25 else 0)
         + specThreatScore h target allTargets
         + (if isBelow (getHealthPercentage (h target)) 50
               \<and> attack (h target) > (4/5) * attack (h attacker)
            then 75 else 0))"

text \<open>
  The score of a splash attack: the sum over all available opponents of half the single
  damage, 200 for each opponent the splash would defeat, and 50 times the effectiveness
  for each opponent against whom it is at least 1.25.
\<close>

definition specSplashScore ::
  "(addr \<Rightarrow> character) \<Rightarrow> addr \<Rightarrow> gene \<Rightarrow> addr list \<Rightarrow> rat" where
  "specSplashScore h attacker g allTargets =
     (\<Sum>t\<leftarrow>allTargets. attack (h attacker) * getEffectiveness g (h t) * (1/2))
     + 200 * of_nat (length (filter
         (\<lambda>t. attack (h attacker) * getEffectiveness g (h t) * (1/2) \<ge> hp (h t)) allTargets))
     + (\<Sum>t\<leftarrow>filter (\<lambda>t. getEffectiveness g (h t) \<ge> 5/4) allTargets.
          50 * getEffectiveness g (h t))"

text \<open>
  The state of the search after the candidates \<open>seen\<close>: nothing yet, or a move that is one
  of them, with its score, which no candidate seen exceeds.
\<close>

definition bestAmong ::
  "(attackObj \<times> addr \<Rightarrow> rat) \<Rightarrow> (attackObj \<times> addr) list \<Rightarrow> move option \<times> rat option \<Rightarrow> bool" where
  "bestAmong f seen best \<longleftrightarrow>
     (case best of
        (None, None) \<Rightarrow> seen = []
      | (Some m, Some b) \<Rightarrow>
          (\<exists>c \<in> set seen. m = \<lparr>moveAttack = Some (fst c), moveTarget = Some (snd c)\<rparr>
              \<and> b = f c \<and> (\<forall>x \<in> set seen. f x \<le> f c))
      | _ \<Rightarrow> False)"

section \<open>Battle setup\<close>

text \<open>\<open>new GameCharacter(...)\<close> and \<open>clone()\<close> make a new object: it gets the next free address.\<close>

definition alloc :: "battle \<Rightarrow> character \<Rightarrow> addr \<times> battle" where
  "alloc st c =
     (nextFree st, st\<lparr>heap := (heap st)(nextFree st := c), nextFree := Suc (nextFree st)\<rparr>)"

text \<open>
  \<open>playerTeam.map(char => { cloned = char.clone(); cloned.resetForBattle();
  cloned.isPlayer = true; return cloned })\<close>, the new team in the first component.
\<close>

definition clonePlayer :: "addr \<Rightarrow> addr list \<times> battle \<Rightarrow> addr list \<times> battle" where
  "clonePlayer a acc =
     (let st = snd acc;
          cloned = (resetForBattle (clone (heap st a)))\<lparr>isPlayer := Some True\<rparr>;
          new = alloc st cloned
      in (fst acc @ [fst new], snd new))"

text \<open>The decimal digit of \<open>i + 1\<close> in the suffix \<open>-E${i + 1}\<close>; \<open>i\<close> is below the team size 3.\<close>

definition enemySuffix :: "nat \<Rightarrow> string" where
  "enemySuffix i = ''-E'' @ [''0123456789'' ! (i + 1)]"

definition inPlayerTeam :: "battle \<Rightarrow> string \<Rightarrow> bool" where
  "inPlayerTeam st i = list_ex (\<lambda>p. cid (heap st p) = i) (playerTeam st)"

text \<open>
  The loop of the first branch of \<open>generateEnemyTeam\<close> (fewer than three unlocked
  characters outside the player team): every draw picks among all unlocked characters.
  \<open>rand i\<close> is the value of the call of \<open>Math.random()\<close> in round \<open>i\<close>. A draw that
  picks nothing (no unlocked character at all) makes \<open>randomChar.clone()\<close> throw.
\<close>

fun enemiesWithDuplicates ::
  "nat list \<Rightarrow> (nat \<Rightarrow> rat) \<Rightarrow> addr list \<Rightarrow> battle \<Rightarrow> error option \<times> battle" where
  "enemiesWithDuplicates [] rand allAvailable st = (None, st)"
| "enemiesWithDuplicates (i # rounds) rand allAvailable st =
     (case pick (rand i) allAvailable of
        None \<Rightarrow> (Some TypeError, st)
      | Some randomChar \<Rightarrow>
          (let c0 = clone (heap st randomChar);
               c1 = (if inPlayerTeam st (cid c0) then c0\<lparr>cid := cid c0 @ enemySuffix i\<rparr> else c0);
               enemyChar = (resetForBattle c1)\<lparr>isPlayer := Some False\<rparr>;
               new = alloc st enemyChar;
               st1 = (snd new)\<lparr>enemyTeam := enemyTeam (snd new) @ [fst new]\<rparr>
           in enemiesWithDuplicates rounds rand allAvailable st1))"

text \<open>\<open>availableCharacters.splice(findIndex(char => char.id === randomChar.id), 1)\<close>\<close>

fun removeFirstId :: "(addr \<Rightarrow> character) \<Rightarrow> string \<Rightarrow> addr list \<Rightarrow> addr list" where
  "removeFirstId h i [] = []"
| "removeFirstId h i (a # as) = (if cid (h a) = i then as else a # removeFirstId h i as)"

text \<open>The loop of the second branch: a character that was drawn is not drawn again.\<close>

fun enemiesUnique ::
  "nat list \<Rightarrow> (nat \<Rightarrow> rat) \<Rightarrow> addr list \<Rightarrow> battle \<Rightarrow> error option \<times> battle" where
  "enemiesUnique [] rand availableCharacters st = (None, st)"
| "enemiesUnique (i # rounds) rand availableCharacters st =
     (case pick (rand i) availableCharacters of
        None \<Rightarrow> (Some TypeError, st)
      | Some randomChar \<Rightarrow>
          (let enemyChar = (resetForBattle (clone (heap st randomChar)))\<lparr>isPlayer := Some False\<rparr>;
               new = alloc st enemyChar;
               st1 = (snd new)\<lparr>enemyTeam := enemyTeam (snd new) @ [fst new]\<rparr>
           in enemiesUnique rounds rand
                (removeFirstId (heap st) (cid (heap st randomChar)) availableCharacters) st1))"

text \<open>
  \<open>generateEnemyTeam\<close>; \<open>gameCharacters\<close> is \<open>Object.values(this.game.characters)\<close>.
\<close>

definition generateEnemyTeam ::
  "battle \<Rightarrow> addr list \<Rightarrow> (nat \<Rightarrow> rat) \<Rightarrow> error option \<times> battle" where
  "generateEnemyTeam st gameCharacters rand =
     (let availableCharacters =
            filter (\<lambda>a. unlocked (heap st a) \<and> \<not> inPlayerTeam st (cid (heap st a))) gameCharacters
      in if length availableCharacters < TEAM_SIZE
         then enemiesWithDuplicates [0..<TEAM_SIZE] rand
                (filter (\<lambda>a. unlocked (heap st a)) gameCharacters) (st\<lparr>enemyTeam := []\<rparr>)
         else enemiesUnique [0..<TEAM_SIZE] rand availableCharacters (st\<lparr>enemyTeam := []\<rparr>))"

record setupResult =
  resultPlayerTeam :: "addr list"
  resultEnemyTeam :: "addr list"
  firstCharacter :: "addr option"

text \<open>
  \<open>setupBattle\<close>. There is no check of the roster's size. The result is \<open>None\<close> when the
  scheduler's loop does not end, an error when enemy generation throws.
\<close>

definition setupBattle ::
  "battle \<Rightarrow> addr list \<Rightarrow> addr list \<Rightarrow> (nat \<Rightarrow> rat) \<Rightarrow> ((error + setupResult) \<times> battle) option" where
  "setupBattle st roster gameCharacters rand =
     (let cloned = fold clonePlayer roster ([], st);
          st1 = (snd cloned)\<lparr>playerTeam := fst cloned\<rparr>;
          gen = generateEnemyTeam st1 gameCharacters rand
      in case fst gen of
           Some e \<Rightarrow> Some (Inl e, snd gen)
         | None \<Rightarrow>
             (case createTurnQueue (snd gen) of
                None \<Rightarrow> None
              | Some st3 \<Rightarrow>
                  (let st4 = st3\<lparr>battlePhase := Battle, battleLog := [],
                                 attackButtonsDisabled := False, isProcessingTurn := False,
                                 selectedAttackObj := None\<rparr>
                   in Some (Inr \<lparr>resultPlayerTeam = playerTeam st4,
                                  resultEnemyTeam = enemyTeam st4,
                                  firstCharacter = getCurrentCharacter st4\<rparr>, st4))))"

text \<open>
  The characters a game holds are objects of the store whose ids are keys of the stat
  table (\<open>generateCharacters\<close> makes one for each key).
\<close>

definition tableCharacters :: "battle \<Rightarrow> addr list \<Rightarrow> bool" where
  "tableCharacters st as \<longleftrightarrow>
     list_all (\<lambda>a. a < nextFree st \<and> cid (heap st a) \<in> set (map fst CHARACTER_STATS)) as"

text \<open>Both teams consist of objects of the store with a positive speed.\<close>

definition teamsBuilt :: "battle \<Rightarrow> bool" where
  "teamsBuilt st \<longleftrightarrow>
     list_all (\<lambda>a. a < nextFree st \<and> 0 < speed (heap st a)) (playerTeam st @ enemyTeam st)"

subsection \<open>The caller in the game (breedinggame.js)\<close>

text \<open>
  The game's registry \<open>characters\<close> (an object keyed by character id, in insertion
  order) and the ids selected for battle.
\<close>

record game =
  characters :: "(string \<times> addr) list"
  selectedBattleTeam :: "string list"

text \<open>
  \<open>startBattle\<close>, as far as the battle system is concerned (rendering is left out). With
  a selection of another size than 3 it returns at once. An id missing from the registry
  makes the roster hold \<open>undefined\<close>, on which \<open>setupBattle\<close> throws before it writes.
\<close>

definition startBattle ::
  "game \<Rightarrow> battle \<Rightarrow> (nat \<Rightarrow> rat) \<Rightarrow> ((error + setupResult option) \<times> battle) option" where
  "startBattle g st rand =
     (if length (selectedBattleTeam g) \<noteq> 3 then Some (Inr None, st)
      else case those (map (map_of (characters g)) (selectedBattleTeam g)) of
             None \<Rightarrow> Some (Inl TypeError, st)
           | Some roster \<Rightarrow>
               (case setupBattle st roster (map snd (characters g)) rand of
                  None \<Rightarrow> None
                | Some (Inl e, st') \<Rightarrow> Some (Inl e, st')
                | Some (Inr r, st') \<Rightarrow> Some (Inr (Some r), st')))"

subsection \<open>The game's characters\<close>

fun geneName :: "gene \<Rightarrow> string" where
  "geneName Red = ''Red''"
| "geneName Orange = ''Orange''"
| "geneName Yellow = ''Yellow''"
| "geneName Green = ''Green''"
| "geneName Blue = ''Blue''"
| "geneName Purple = ''Purple''"
| "geneName Neutral = ''Neutral''"
| "geneName NoGene = ''undefined''"

text \<open>\<open>generateCharacters\<close>: the six single-gene characters, unlocked, then the 36 pairs, locked.\<close>

definition generateCharacters :: "character list" where
  "generateCharacters =
     map (\<lambda>g. GameCharacter (geneName g) [g] True) GENES
     @ concat (map (\<lambda>primary. map (\<lambda>secondary.
         GameCharacter (geneName primary @ ''-'' @ geneName secondary) [primary, secondary] False)
           GENES) GENES)"

section \<open>A sample battle\<close>

text \<open>
  Allies Red, Red-Blue and Blue at addresses 10 to 12; opponents Yellow (already down to 60
  hp), Yellow-Yellow and Yellow-Red at addresses 20 to 22. All action bars are at 0 and Blue,
  the fastest, is the current character.
\<close>

definition sampleHeap :: "addr \<Rightarrow> character" where
  "sampleHeap =
     (\<lambda>_. GameCharacter ''Red'' [Red] True)
       (10 := (GameCharacter ''Red'' [Red] True)\<lparr>isPlayer := Some True\<rparr>,
        11 := (GameCharacter ''Red-Blue'' [Red, Blue] True)\<lparr>isPlayer := Some True\<rparr>,
        12 := (GameCharacter ''Blue'' [Blue] True)\<lparr>isPlayer := Some True\<rparr>,
        20 := (GameCharacter ''Yellow'' [Yellow] True)\<lparr>isPlayer := Some False, hp := 60\<rparr>,
        21 := (GameCharacter ''Yellow-Yellow'' [Yellow, Yellow] True)\<lparr>isPlayer := Some False\<rparr>,
        22 := (GameCharacter ''Yellow-Red'' [Yellow, Red] True)\<lparr>isPlayer := Some False\<rparr>)"

definition sampleBattle :: battle where
  "sampleBattle =
     \<lparr>heap = sampleHeap, nextFree = 23, playerTeam = [10, 11, 12], enemyTeam = [20, 21, 22],
      turnQueue = [12], battlePhase = Battle, battleLog = [], difficulty = EASY,
      actionBars = [''Red-P'' \<mapsto> Num 0, ''Red-Blue-P'' \<mapsto> Num 0, ''Blue-P'' \<mapsto> Num 0,
                    ''Yellow-E'' \<mapsto> Num 0, ''Yellow-Yellow-E'' \<mapsto> Num 0,
                    ''Yellow-Red-E'' \<mapsto> Num 0],
      turnHistory = [], upcomingTurns = [12], isProcessingTurn = False,
      attackButtonsDisabled = False, selectedAttackObj = None,
      aiTurnTimer = None, nextTurnTimer = None\<rparr>"


text \<open>
  Action bars one pass before Red, Yellow and Yellow-Red, all of speed 40, reach the
  threshold together.
\<close>

definition sampleTiedBars :: "string \<rightharpoonup> jsnum" where
  "sampleTiedBars =
     [''Red-P'' \<mapsto> Num 960, ''Red-Blue-P'' \<mapsto> Num 0, ''Blue-P'' \<mapsto> Num 0,
      ''Yellow-E'' \<mapsto> Num 960, ''Yellow-Yellow-E'' \<mapsto> Num 0, ''Yellow-Red-E'' \<mapsto> Num 960]"

text \<open>
  The sample battle near its end: of the opponents only Yellow is left, with 30 hp; the
  action bars of the two defeated opponents are gone.
\<close>

definition sampleEndgame :: battle where
  "sampleEndgame =
     sampleBattle\<lparr>heap := sampleHeap
         (20 := (sampleHeap 20)\<lparr>hp := 30\<rparr>,
          21 := (sampleHeap 21)\<lparr>hp := 0\<rparr>,
          22 := (sampleHeap 22)\<lparr>hp := 0\<rparr>),
       actionBars := [''Red-P'' \<mapsto> Num 0, ''Red-Blue-P'' \<mapsto> Num 0, ''Blue-P'' \<mapsto> Num 0,
                      ''Yellow-E'' \<mapsto> Num 0]\<rparr>"

text \<open>
  A second sample for the AI: the opponent Red-Red at address 30 faces the allies Orange,
  Orange-Yellow and Orange-Green at addresses 31 to 33, each down to 10 hp.
\<close>

definition sampleSplashHeap :: "addr \<Rightarrow> character" where
  "sampleSplashHeap =
     (\<lambda>_. GameCharacter ''Red'' [Red] True)
       (30 := (GameCharacter ''Red-Red'' [Red, Red] True)\<lparr>isPlayer := Some False\<rparr>,
        31 := (GameCharacter ''Orange'' [Orange] True)\<lparr>isPlayer := Some True, hp := 10\<rparr>,
        32 := (GameCharacter ''Orange-Yellow'' [Orange, Yellow] True)
                \<lparr>isPlayer := Some True, hp := 10\<rparr>,
        33 := (GameCharacter ''Orange-Green'' [Orange, Green] True)
                \<lparr>isPlayer := Some True, hp := 10\<rparr>)"

section \<open>A new game\<close>

text \<open>
  The state of a new game: the 42 characters of \<open>generateCharacters\<close> at addresses 100 to
  141 (the six single-gene characters first, so Red is at 100 and Blue at 104), the battle
  system as its constructor leaves it, and Red and Blue selected for battle.
\<close>

definition openingHeap :: "addr \<Rightarrow> character" where
  "openingHeap a =
     (if 100 \<le> a \<and> a < 142 then generateCharacters ! (a - 100)
      else GameCharacter ''Red'' [Red] True)"

definition openingBattle :: battle where
  "openingBattle =
     \<lparr>heap = openingHeap, nextFree = 142, playerTeam = [], enemyTeam = [],
      turnQueue = [], battlePhase = Setup, battleLog = [], difficulty = EASY,
      actionBars = Map.empty, turnHistory = [], upcomingTurns = [], isProcessingTurn = False,
      attackButtonsDisabled = False, selectedAttackObj = None,
      aiTurnTimer = None, nextTurnTimer = None\<rparr>"

definition openingGame :: game where
  "openingGame =
     \<lparr>characters = zip (map cid generateCharacters) [100 ..< 142],
      selectedBattleTeam = [''Red'', ''Blue'']\<rparr>"

text \<open>
  The new game after the roster Red, Blue has been cloned into the player team, and after
  the enemies Orange, Yellow and Green have been generated (every draw being 0).
\<close>

definition openingPlayers :: battle where
  "openingPlayers =
     openingBattle\<lparr>heap := openingHeap
          (142 := \<lparr>cid = ''Red'', genes = [Red], unlocked = True,
                    hp = 120, maxHp = 120, attack = 120, speed = 40, isPlayer = Some True\<rparr>,
           143 := \<lparr>cid = ''Blue'', genes = [Blue], unlocked = True,
                    hp = 120, maxHp = 120, attack = 40, speed = 120, isPlayer = Some True\<rparr>),
        nextFree := 144, playerTeam := [142, 143]\<rparr>"

definition openingTeams :: battle where
  "openingTeams =
     openingPlayers\<lparr>heap := (heap openingPlayers)
          (144 := \<lparr>cid = ''Orange'', genes = [Orange], unlocked = True,
                    hp = 240, maxHp = 240, attack = 80, speed = 40, isPlayer = Some False\<rparr>,
           145 := \<lparr>cid = ''Yellow'', genes = [Yellow], unlocked = True,
                    hp = 360, maxHp = 360, attack = 40, speed = 40, isPlayer = Some False\<rparr>,
           146 := \<lparr>cid = ''Green'', genes = [Green], unlocked = True,
                    hp = 240, maxHp = 240, attack = 40, speed = 80, isPlayer = Some False\<rparr>),
        nextFree := 147, enemyTeam := [144, 145, 146]\<rparr>"

section \<open>Effectiveness and damage\<close>

lemma getEffectiveness_wheel:
  "getEffectiveness a (c\<lparr>genes := d # rest\<rparr>) = wheelMultiplier a d"
  by (cases a; cases d) (simp_all add: getEffectiveness_def wheelMultiplier_def TYPE_EFFECTIVENESS_def GENES_def)

lemma wheelMultiplier_range: "wheelMultiplier a d \<in> MULTIPLIERS"
  by (simp add: wheelMultiplier_def MULTIPLIERS_def)

lemma getEffectiveness_range: "getEffectiveness a c \<in> MULTIPLIERS"
proof (cases "genes c")
  case Nil
  then show ?thesis by (simp add: getEffectiveness_def MULTIPLIERS_def)
next
  case (Cons d rest)
  then have "getEffectiveness a c = getEffectiveness a (c\<lparr>genes := d # rest\<rparr>)"
    by (simp add: getEffectiveness_def)
  then show ?thesis
    by (simp only: getEffectiveness_wheel wheelMultiplier_range)
qed

text \<open>
  C2. The effectiveness of an attack gene against a defender whose gene list starts with
  \<open>d\<close> is 1 for a Neutral attack and otherwise the wheel multiplier of the pair: 3/2 one
  step forward, 5/4 two steps forward, 1/2 one step backward, 3/4 two steps backward and
  1 for everything else, the gene itself included. The value is always one of the five
  multipliers, and the genes after the first never enter the lookup.
\<close>

theorem effectiveness_wheel_table:
  "getEffectiveness Neutral c = 1
   \<and> getEffectiveness a (c\<lparr>genes := d # rest\<rparr>) = wheelMultiplier a d
   \<and> getEffectiveness a c \<in> {1/2, 3/4, 1, 5/4, 3/2}
   \<and> getEffectiveness g (c\<lparr>genes := g # rest\<rparr>) = 1
   \<and> getEffectiveness a (c\<lparr>genes := d # rest\<rparr>) = getEffectiveness a (c\<lparr>genes := [d]\<rparr>)"
proof -
  have 1: "getEffectiveness Neutral c = 1"
    by (simp add: getEffectiveness_def)
  have 2: "getEffectiveness a (c\<lparr>genes := d # rest\<rparr>) = wheelMultiplier a d"
    by (rule getEffectiveness_wheel)
  have 3: "getEffectiveness a c \<in> {1/2, 3/4, 1, 5/4, 3/2}"
    using getEffectiveness_range [of a c] by (simp add: MULTIPLIERS_def)
  have 4: "getEffectiveness g (c\<lparr>genes := g # rest\<rparr>) = 1"
    by (cases g) (simp_all add: getEffectiveness_wheel wheelMultiplier_def GENES_def)
  have 5: "getEffectiveness a (c\<lparr>genes := d # rest\<rparr>) = getEffectiveness a (c\<lparr>genes := [d]\<rparr>)"
    by (simp add: getEffectiveness_wheel)
  from 1 2 3 4 5 show ?thesis by blast
qed

theorem effectiveness_wheel_table_witness:
  "getEffectiveness Neutral (sampleHeap 22) = 1
   \<and> getEffectiveness Red ((sampleHeap 22)\<lparr>genes := [Yellow, Red]\<rparr>) = 5/4
   \<and> wheelMultiplier Red Yellow = 5/4
   \<and> getEffectiveness Yellow ((sampleHeap 22)\<lparr>genes := [Yellow, Red]\<rparr>) = 1
   \<and> getEffectiveness Red ((sampleHeap 22)\<lparr>genes := [Yellow, Red]\<rparr>)
       = getEffectiveness Red ((sampleHeap 22)\<lparr>genes := [Yellow]\<rparr>)"
proof -
  have w: "wheelMultiplier Red Yellow = 5/4"
    by (simp add: wheelMultiplier_def GENES_def)
  from effectiveness_wheel_table [where c = "sampleHeap 22" and a = Red and d = Yellow
      and rest = "[Red]" and g = Yellow]
  show ?thesis by (simp only: w) simp
qed

lemma table_all_dvd4: "list_all (\<lambda>(i, h, a, s). 4 dvd a) CHARACTER_STATS"
  by (simp add: CHARACTER_STATS_def)

lemma table_attack_dvd4: "(i, h, a, s) \<in> set CHARACTER_STATS \<Longrightarrow> 4 dvd a"
  using table_all_dvd4 unfolding list_all_iff by fast

lemma dvd4_times_multiplier:
  assumes "4 dvd (a::int)" and "m \<in> MULTIPLIERS"
  shows "(of_int a :: rat) * m \<in> \<int>"
proof -
  from assms(1) obtain k where a: "a = 4 * k" by (auto simp: dvd_def)
  have "(of_int a :: rat) * m = of_int (k * 2) \<or> (of_int a :: rat) * m = of_int (k * 3)
        \<or> (of_int a :: rat) * m = of_int (k * 4) \<or> (of_int a :: rat) * m = of_int (k * 5)
        \<or> (of_int a :: rat) * m = of_int (k * 6)"
    using assms(2) by (auto simp: MULTIPLIERS_def a)
  then show ?thesis by (metis Ints_of_int)
qed

lemma getStatDistribution_dvd4: "getStatDistribution i = (h, a, s) \<Longrightarrow> 4 dvd a"
  unfolding getStatDistribution_def
  by (cases "map_of CHARACTER_STATS i") (auto dest!: map_of_SomeD table_attack_dvd4)

text \<open>
  C10. Every attack value of the stat table is divisible by 4, so its product with each
  of the five multipliers is an integer; hence the damage of a single attack by any
  character built from the table (or from the fallback stats) is an integer.
\<close>

theorem table_damage_integral:
  "(\<forall>(i, h, a, s) \<in> set CHARACTER_STATS.
       4 dvd a \<and> (\<forall>m \<in> {1/2, 3/4, 1, 5/4, 3/2}. (of_int a :: rat) * m \<in> \<int>))
   \<and> calculateDamage (GameCharacter i gs u) g d \<in> \<int>"
proof -
  have A: "\<forall>(i, h, a, s) \<in> set CHARACTER_STATS.
       4 dvd a \<and> (\<forall>m \<in> {1/2, 3/4, 1, 5/4, 3/2}. (of_int a :: rat) * m \<in> \<int>)"
  proof (intro ballI, clarify)
    fix i h a s
    assume "(i, h, a, s) \<in> set CHARACTER_STATS"
    then have d: "4 dvd a" by (rule table_attack_dvd4)
    have "\<forall>m \<in> MULTIPLIERS. (of_int a :: rat) * m \<in> \<int>"
      using dvd4_times_multiplier [OF d] by blast
    with d show "4 dvd a \<and> (\<forall>m \<in> {1/2, 3/4, 1, 5/4, 3/2}. (of_int a :: rat) * m \<in> \<int>)"
      unfolding MULTIPLIERS_def by blast
  qed
  obtain h a s where st: "getStatDistribution i = (h, a, s)"
    by (cases "getStatDistribution i") auto
  then have at: "attack (GameCharacter i gs u) = of_int a"
    by (simp add: GameCharacter_def)
  have "4 dvd a" using st by (rule getStatDistribution_dvd4)
  then have "(of_int a :: rat) * getEffectiveness g d \<in> \<int>"
    using getEffectiveness_range by (rule dvd4_times_multiplier)
  then have B: "calculateDamage (GameCharacter i gs u) g d \<in> \<int>"
    by (simp only: calculateDamage_def at)
  from A B show ?thesis by (rule conjI)
qed

lemma stats_Red_Blue: "getStatDistribution ''Red-Blue'' = (120, 60, 100)"
  by (simp add: getStatDistribution_def CHARACTER_STATS_def)

lemma stats_Yellow: "getStatDistribution ''Yellow'' = (360, 40, 40)"
  by (simp add: getStatDistribution_def CHARACTER_STATS_def)

theorem table_damage_integral_witness:
  "(''Red-Blue'', 120, 60, 100) \<in> set CHARACTER_STATS
   \<and> (4::int) dvd 60 \<and> (of_int 60 :: rat) * (5/4) \<in> \<int>
   \<and> calculateDamage (GameCharacter ''Red-Blue'' [Red, Blue] True) Red
        (GameCharacter ''Yellow'' [Yellow] True) \<in> \<int>"
proof -
  have m: "(''Red-Blue'', 120, 60, 100) \<in> set CHARACTER_STATS"
    by (simp add: CHARACTER_STATS_def)
  note T = table_damage_integral [of "''Red-Blue''" "[Red, Blue]" True Red
      "GameCharacter ''Yellow'' [Yellow] True"]
  from T have "\<forall>(i, h, a, s) \<in> set CHARACTER_STATS.
       4 dvd a \<and> (\<forall>m \<in> {1/2, 3/4, 1, 5/4, 3/2}. (of_int a :: rat) * m \<in> \<int>)"
    by (rule conjunct1)
  from bspec [OF this m]
  have "(4::int) dvd 60 \<and> (\<forall>m \<in> {1/2, 3/4, 1, 5/4, 3/2}. (of_int 60 :: rat) * m \<in> \<int>)"
    unfolding prod.case by blast
  then have "(4::int) dvd 60 \<and> (of_int 60 :: rat) * (5/4) \<in> \<int>" by blast
  moreover from T have "calculateDamage (GameCharacter ''Red-Blue'' [Red, Blue] True) Red
        (GameCharacter ''Yellow'' [Yellow] True) \<in> \<int>"
    by (rule conjunct2)
  ultimately show ?thesis using m by blast
qed

lemma ACTION_THRESHOLD_pos: "0 < ACTION_THRESHOLD"
  by (simp add: ACTION_THRESHOLD_def)

lemma insertBy_mset: "mset (insertBy cmp x xs) = add_mset x (mset xs)"
  by (induction xs) auto

lemma sortBy_mset: "mset (sortBy cmp xs) = mset xs"
  unfolding sortBy_def by (induction xs) (auto simp: insertBy_mset)

lemma sortBy_length: "length (sortBy cmp xs) = length xs"
  by (metis sortBy_mset size_mset)

lemma sortBy_set: "set (sortBy cmp xs) = set xs"
  by (metis sortBy_mset set_mset_mset)

lemma incBar_Num_ge:
  assumes "bars k = Some (Num b)" and "0 \<le> speed (heap st a)"
  shows "\<exists>b'. incBar st a bars k = Some (Num b') \<and> b \<le> b'"
  using assms by (auto simp: incBar_def split: option.splits jsnum.splits)

lemma incBar_own:
  assumes "bars (charKey st a) = Some (Num b)"
  shows "incBar st a bars (charKey st a) = Some (Num (b + speed (heap st a)))"
  using assms by (simp add: incBar_def)

lemma fold_incBar_ge:
  assumes "bars k = Some (Num b)" and "\<forall>a \<in> set cs. 0 \<le> speed (heap st a)"
  shows "\<exists>b'. fold (incBar st) cs bars k = Some (Num b') \<and> b \<le> b'"
  using assms
proof (induction cs arbitrary: bars b)
  case Nil
  then show ?case by simp
next
  case (Cons a cs)
  from Cons.prems obtain b1 where b1: "incBar st a bars k = Some (Num b1)" "b \<le> b1"
    using incBar_Num_ge [where bars = bars and k = k and b = b and st = st and a = a] by auto
  from Cons.IH [of "incBar st a bars" b1] b1(1) Cons.prems(2)
  obtain b' where "fold (incBar st) cs (incBar st a bars) k = Some (Num b')" "b1 \<le> b'"
    by auto
  with b1(2) show ?case by auto
qed

lemma fold_incBar_member:
  assumes "a0 \<in> set cs" and "bars (charKey st a0) = Some (Num b)"
    and "\<forall>a \<in> set cs. 0 \<le> speed (heap st a)"
  shows "\<exists>b'. fold (incBar st) cs bars (charKey st a0) = Some (Num b')
              \<and> b + speed (heap st a0) \<le> b'"
  using assms
proof (induction cs arbitrary: bars b)
  case Nil
  then show ?case by simp
next
  case (Cons a cs)
  show ?case
  proof (cases "a = a0")
    case True
    have "incBar st a bars (charKey st a0) = Some (Num (b + speed (heap st a0)))"
      using Cons.prems(2) True by (simp add: incBar_own)
    with fold_incBar_ge [where bars = "incBar st a bars" and k = "charKey st a0"
        and b = "b + speed (heap st a0)" and cs = cs and st = st] Cons.prems(3)
    show ?thesis by simp
  next
    case False
    with Cons.prems(1) have in_cs: "a0 \<in> set cs" by simp
    from Cons.prems obtain b1 where
      b1: "incBar st a bars (charKey st a0) = Some (Num b1)" "b \<le> b1"
      using incBar_Num_ge [where bars = bars and k = "charKey st a0" and b = b and st = st and a = a]
      by auto
    from Cons.IH [of "incBar st a bars" b1] in_cs b1(1) Cons.prems(3)
    obtain b' where "fold (incBar st) cs (incBar st a bars) (charKey st a0) = Some (Num b')"
      "b1 + speed (heap st a0) \<le> b'" by auto
    with b1(2) show ?thesis by auto
  qed
qed

lemma fold_consumeTurn_snd: "snd (fold (consumeTurn st) xs s) = snd s @ xs"
  by (induction xs arbitrary: s) (simp_all add: consumeTurn_def)

lemma consumeBar_keeps_Num:
  assumes "bars k = Some (Num b)"
  shows "\<exists>b'. consumeBar bars k' k = Some (Num b')"
  using assms by (auto simp: consumeBar_def)

lemma fold_consumeTurn_keeps_Num:
  assumes "fst s k = Some (Num b)"
  shows "\<exists>b'. fst (fold (consumeTurn st) xs s) k = Some (Num b')"
  using assms
proof (induction xs arbitrary: s b)
  case Nil
  then show ?case by simp
next
  case (Cons x xs)
  from consumeBar_keeps_Num [where bars = "fst s" and k = k and b = b and k' = "charKey st x"]
    Cons.prems
  obtain b1 where "fst (consumeTurn st x s) k = Some (Num b1)"
    by (auto simp: consumeTurn_def)
  with Cons.IH [of "consumeTurn st x s" b1] show ?case by simp
qed

text \<open>What one pass does to the turn list and to the bar of a schedulable character.\<close>

lemma simTick_progress:
  assumes a0: "a0 \<in> set cs"
    and bar: "fst s (charKey st a0) = Some (Num b)"
    and nonneg: "\<forall>a \<in> set cs. 0 \<le> speed (heap st a)"
  shows "\<exists>b'. fst (simTick st cs s) (charKey st a0) = Some (Num b')
          \<and> (length (snd s) < length (snd (simTick st cs s))
              \<or> (snd (simTick st cs s) = snd s \<and> b + speed (heap st a0) \<le> b'
                  \<and> b' < ACTION_THRESHOLD))"
proof -
  define bars1 where "bars1 = fold (incBar st) cs (fst s)"
  define ready where "ready = filter (isReady st bars1) cs"
  from fold_incBar_member [where bars = "fst s" and b = b and st = st and cs = cs and ?a0.0 = a0]
    a0 bar nonneg
  obtain b1 where b1: "bars1 (charKey st a0) = Some (Num b1)" "b + speed (heap st a0) \<le> b1"
    unfolding bars1_def by auto
  show ?thesis
  proof (cases "ready = []")
    case True
    then have tick: "simTick st cs s = (bars1, snd s)"
      by (simp add: simTick_def bars1_def ready_def)
    from True a0 have "\<not> isReady st bars1 a0"
      unfolding ready_def by (auto simp: filter_empty_conv)
    with b1(1) have "b1 < ACTION_THRESHOLD" by (simp add: isReady_def)
    with b1 tick show ?thesis by simp
  next
    case False
    then have tick: "simTick st cs s =
        fold (consumeTurn st) (sortBy (turnCmp st bars1) ready) (bars1, snd s)"
      by (simp add: simTick_def bars1_def ready_def Let_def)
    have "length (snd (simTick st cs s)) = length (snd s) + length ready"
      unfolding tick by (simp add: fold_consumeTurn_snd sortBy_length)
    moreover from False have "0 < length ready" by simp
    moreover have "\<exists>b'. fst (simTick st cs s) (charKey st a0) = Some (Num b')"
      unfolding tick
      using fold_consumeTurn_keeps_Num [where s = "(bars1, snd s)" and k = "charKey st a0" and b = b1]
        b1(1) by simp
    ultimately show ?thesis by auto
  qed
qed

lemma ceiling_step:
  fixes b b' s T :: rat
  assumes "0 < s" and "b + s \<le> b'" and "b' < T"
  shows "nat \<lceil>(T - b') / s\<rceil> < nat \<lceil>(T - b) / s\<rceil>"
proof -
  have "(T - b') / s \<le> (T - b - s) / s"
    using assms by (intro divide_right_mono) auto
  also have "\<dots> = (T - b) / s - 1"
    using assms(1) by (simp add: diff_divide_distrib)
  finally have "(T - b') / s \<le> (T - b) / s - 1" .
  then have "\<lceil>(T - b') / s\<rceil> \<le> \<lceil>(T - b) / s\<rceil> - 1"
    by (metis ceiling_diff_one ceiling_mono)
  moreover have "0 < (T - b') / s" using assms by simp
  then have "0 < \<lceil>(T - b') / s\<rceil>" by simp
  ultimately show ?thesis by linarith
qed

text \<open>
  The loop ends as soon as one character of the list has a positive speed and a numeric
  action bar, and no speed is negative.
\<close>

lemma simLoop_returns:
  assumes "a0 \<in> set cs" and "0 < speed (heap st a0)"
    and "fst s (charKey st a0) = Some (Num b)"
    and "\<forall>a \<in> set cs. 0 \<le> speed (heap st a)"
  shows "\<exists>ts. simLoop st n cs s = Some ts"
  using assms(3)
proof (induction "(n - length (snd s), nat \<lceil>(ACTION_THRESHOLD - b) / speed (heap st a0)\<rceil>)"
    arbitrary: s b rule: wf_induct_rule [OF wf_lex_prod [OF wf_less_than wf_less_than]])
  case less: 1
  show ?case
  proof (cases "length (snd s) < n")
    case False
    then show ?thesis by (subst simLoop.simps) simp
  next
    case True
    from simTick_progress [where s = s and b = b and st = st and cs = cs and ?a0.0 = a0]
      assms(1) less.prems assms(4)
    obtain b' where b': "fst (simTick st cs s) (charKey st a0) = Some (Num b')"
      and step: "length (snd s) < length (snd (simTick st cs s))
              \<or> (snd (simTick st cs s) = snd s \<and> b + speed (heap st a0) \<le> b'
                  \<and> b' < ACTION_THRESHOLD)"
      by blast
    have "((n - length (snd (simTick st cs s)),
            nat \<lceil>(ACTION_THRESHOLD - b') / speed (heap st a0)\<rceil>),
           (n - length (snd s), nat \<lceil>(ACTION_THRESHOLD - b) / speed (heap st a0)\<rceil>))
          \<in> less_than <*lex*> less_than"
      using step True ceiling_step [OF assms(2), of b b' ACTION_THRESHOLD] by auto
    from less.hyps [of "simTick st cs s" b'] this b'
    obtain ts where "simLoop st n cs (simTick st cs s) = Some ts" by blast
    then show ?thesis using True by (subst simLoop.simps) simp
  qed
qed

lemma calculateUpcomingTurns_returns:
  assumes "\<forall>a \<in> set (allAlive st).
             0 < speed (heap st a) \<and> (\<exists>v. actionBars st (charKey st a) = Some (Num v))"
  shows "\<exists>ts. calculateUpcomingTurns st n = Some (st\<lparr>upcomingTurns := ts\<rparr>)"
proof (cases "allAlive st")
  case Nil
  then have "calculateUpcomingTurns st n = Some (st\<lparr>upcomingTurns := []\<rparr>)"
    by (simp add: calculateUpcomingTurns_def)
  then show ?thesis by blast
next
  case (Cons a0 rest)
  with assms obtain v where a0: "a0 \<in> set (allAlive st)" "0 < speed (heap st a0)"
    "fst (actionBars st, []::addr list) (charKey st a0) = Some (Num v)"
    by auto
  from assms have "\<forall>a \<in> set (allAlive st). 0 \<le> speed (heap st a)"
    by (auto intro: less_imp_le)
  from simLoop_returns [where s = "(actionBars st, [])" and b = v, OF a0(1) a0(2) a0(3) this]
  obtain ts where "simLoop st n (allAlive st) (actionBars st, []) = Some ts" by blast
  with Cons have "calculateUpcomingTurns st n = Some (st\<lparr>upcomingTurns := ts\<rparr>)"
    by (simp add: calculateUpcomingTurns_def)
  then show ?thesis by blast
qed

lemma dead_keys_fold:
  "fold (\<lambda>a b. if \<not> alive st a then b(charKey st a := None) else b) xs bars k =
     (if \<exists>a \<in> set xs. \<not> alive st a \<and> charKey st a = k then None else bars k)"
  by (induction xs arbitrary: bars) auto

lemma distinct_keys_neq:
  assumes "distinct (map f xs)" and "a \<in> set xs" and "d \<in> set xs" and "a \<noteq> d"
  shows "f a \<noteq> f d"
  using assms by (meson distinct_map inj_onD)

lemma updateTurnQueue_returns:
  assumes "schedulable st"
  shows "\<exists>b ts. updateTurnQueue st =
           Some (st\<lparr>actionBars := b, upcomingTurns := ts, turnQueue := take 6 ts\<rparr>)"
proof -
  define b where "b = fold (\<lambda>a b. if \<not> alive st a then b(charKey st a := None) else b)
                   (playerTeam st @ enemyTeam st) (actionBars st)"
  define st1 where "st1 = st\<lparr>actionBars := b\<rparr>"
  have same: "allAlive st1 = allAlive st" "heap st1 = heap st" "charKey st1 = charKey st"
    by (simp_all add: st1_def allAlive_def alive_def charKey_def)
  have "\<forall>a \<in> set (allAlive st1).
          0 < speed (heap st1 a) \<and> (\<exists>v. actionBars st1 (charKey st1 a) = Some (Num v))"
  proof
    fix a assume "a \<in> set (allAlive st1)"
    then have "a \<in> set (allAlive st)" by (simp only: same)
    then have a: "a \<in> set (playerTeam st @ enemyTeam st)" "alive st a"
      by (auto simp: allAlive_def)
    with assms obtain v where v: "actionBars st (charKey st a) = Some (Num v)"
      and sp: "0 < speed (heap st a)"
      unfolding schedulable_def by blast
    have "\<not> (\<exists>d \<in> set (playerTeam st @ enemyTeam st). \<not> alive st d \<and> charKey st d = charKey st a)"
    proof
      assume "\<exists>d \<in> set (playerTeam st @ enemyTeam st). \<not> alive st d \<and> charKey st d = charKey st a"
      then obtain d where d: "d \<in> set (playerTeam st @ enemyTeam st)" "\<not> alive st d"
        "charKey st d = charKey st a" by blast
      with a(2) have "a \<noteq> d" by auto
      moreover from assms have "distinct (map (charKey st) (playerTeam st @ enemyTeam st))"
        unfolding schedulable_def by blast
      ultimately have "charKey st a \<noteq> charKey st d"
        using a(1) d(1) by (rule_tac distinct_keys_neq)
      with d(3) show False by simp
    qed
    then have "b (charKey st a) = actionBars st (charKey st a)"
      unfolding b_def dead_keys_fold by (simp only: if_False)
    with v sp show "0 < speed (heap st1 a) \<and> (\<exists>v. actionBars st1 (charKey st1 a) = Some (Num v))"
      unfolding same by (simp add: st1_def)
  qed
  from calculateUpcomingTurns_returns [OF this, of 20]
  obtain ts where ts: "calculateUpcomingTurns st1 20 = Some (st1\<lparr>upcomingTurns := ts\<rparr>)" by blast
  have "updateTurnQueue st =
     (case calculateUpcomingTurns st1 20 of
           None \<Rightarrow> None
         | Some st2 \<Rightarrow> Some (st2\<lparr>turnQueue := take 6 (upcomingTurns st2)\<rparr>))"
    unfolding updateTurnQueue_def st1_def b_def Let_def ..
  also have "\<dots> = Some (st\<lparr>actionBars := b, upcomingTurns := ts, turnQueue := take 6 ts\<rparr>)"
    unfolding ts by (simp add: st1_def)
  finally show ?thesis by blast
qed

text \<open>Damage changes hp only, and never revives: the state stays schedulable.\<close>

lemma schedulable_damage:
  assumes "schedulable st"
    and "\<forall>a. cid (h' a) = cid (heap st a) \<and> isPlayer (h' a) = isPlayer (heap st a)
             \<and> speed (h' a) = speed (heap st a)"
    and "\<forall>a. isAlive (h' a) \<longrightarrow> isAlive (heap st a)"
  shows "schedulable (st\<lparr>heap := h'\<rparr>)"
proof -
  have key: "charKey (st\<lparr>heap := h'\<rparr>) = charKey st"
    using assms(2) by (simp add: charKey_def getCharId_def fun_eq_iff)
  have sp: "\<And>a. speed (h' a) = speed (heap st a)"
    using assms(2) by simp
  have al: "\<And>a. alive (st\<lparr>heap := h'\<rparr>) a \<Longrightarrow> alive st a"
    using assms(3) by (simp add: alive_def)
  from assms(1) have 1: "distinct (map (charKey st) (playerTeam st @ enemyTeam st))"
    and 2: "\<forall>a \<in> set (playerTeam st @ enemyTeam st). 0 < speed (heap st a)"
    and 3: "\<forall>a \<in> set (playerTeam st @ enemyTeam st).
           alive st a \<longrightarrow> (\<exists>v. actionBars st (charKey st a) = Some (Num v))"
    unfolding schedulable_def by blast+
  from 3 al have 4: "\<forall>a \<in> set (playerTeam st @ enemyTeam st).
           alive (st\<lparr>heap := h'\<rparr>) a \<longrightarrow> (\<exists>v. actionBars st (charKey st a) = Some (Num v))"
    by blast
  show ?thesis
    unfolding schedulable_def key using 1 2 4 by (simp add: sp)
qed

lemma takeDamage_fst: "fst (takeDamage c d) = c\<lparr>hp := max 0 (hp c - d)\<rparr>"
  by (simp add: takeDamage_def Let_def)

lemma takeDamage_snd: "snd (takeDamage c d) = (max 0 (hp c - d) = 0)"
  by (simp add: takeDamage_def Let_def)

lemma sample_chars:
  "sampleHeap 10 = \<lparr>cid = ''Red'', genes = [Red], unlocked = True, hp = 120, maxHp = 120,
      attack = 120, speed = 40, isPlayer = Some True\<rparr>"
  "sampleHeap 11 = \<lparr>cid = ''Red-Blue'', genes = [Red, Blue], unlocked = True, hp = 120,
      maxHp = 120, attack = 60, speed = 100, isPlayer = Some True\<rparr>"
  "sampleHeap 12 = \<lparr>cid = ''Blue'', genes = [Blue], unlocked = True, hp = 120, maxHp = 120,
      attack = 40, speed = 120, isPlayer = Some True\<rparr>"
  "sampleHeap 20 = \<lparr>cid = ''Yellow'', genes = [Yellow], unlocked = True, hp = 60, maxHp = 360,
      attack = 40, speed = 40, isPlayer = Some False\<rparr>"
  "sampleHeap 21 = \<lparr>cid = ''Yellow-Yellow'', genes = [Yellow, Yellow], unlocked = True,
      hp = 312, maxHp = 312, attack = 48, speed = 48, isPlayer = Some False\<rparr>"
  "sampleHeap 22 = \<lparr>cid = ''Yellow-Red'', genes = [Yellow, Red], unlocked = True, hp = 180,
      maxHp = 180, attack = 100, speed = 40, isPlayer = Some False\<rparr>"
  by (simp_all add: sampleHeap_def GameCharacter_def getStatDistribution_def CHARACTER_STATS_def)

lemma sample_keys:
  "charKey sampleBattle 10 = ''Red-P''" "charKey sampleBattle 11 = ''Red-Blue-P''"
  "charKey sampleBattle 12 = ''Blue-P''" "charKey sampleBattle 20 = ''Yellow-E''"
  "charKey sampleBattle 21 = ''Yellow-Yellow-E''" "charKey sampleBattle 22 = ''Yellow-Red-E''"
  by (simp_all add: charKey_def sampleBattle_def sample_chars getCharId_def truthy_def)

lemma sample_alive:
  "alive sampleBattle 10" "alive sampleBattle 11" "alive sampleBattle 12"
  "alive sampleBattle 20" "alive sampleBattle 21" "alive sampleBattle 22"
  by (simp_all add: alive_def sampleBattle_def sample_chars isAlive_def)

lemma sample_schedulable: "schedulable sampleBattle"
proof -
  have t: "playerTeam sampleBattle @ enemyTeam sampleBattle = [10, 11, 12, 20, 21, 22]"
    by (simp add: sampleBattle_def)
  have h: "heap sampleBattle = sampleHeap" by (simp add: sampleBattle_def)
  have b: "actionBars sampleBattle =
      [''Red-P'' \<mapsto> Num 0, ''Red-Blue-P'' \<mapsto> Num 0, ''Blue-P'' \<mapsto> Num 0,
       ''Yellow-E'' \<mapsto> Num 0, ''Yellow-Yellow-E'' \<mapsto> Num 0, ''Yellow-Red-E'' \<mapsto> Num 0]"
    by (simp add: sampleBattle_def)
  show ?thesis
    unfolding schedulable_def t h b by (simp add: sample_keys sample_chars)
qed

section \<open>Single attacks\<close>

text \<open>
  What a single attack on a living target does in a schedulable battle: it returns, the
  target's hp is the only thing that changes on the store, and of the other fields only
  the scheduler's (action bars, upcoming turns, displayed queue) may change.
\<close>

lemma processSingleAttack_returns:
  assumes "schedulable st" and "alive st target"
  shows "\<exists>res st'. processSingleAttack st attacker g (Some target) = Some (Inr res, st')
     \<and> damage res = attack (heap st attacker) * getEffectiveness g (heap st target)
     \<and> effectiveness res = getEffectiveness g (heap st target)
     \<and> targetDefeated res = (max 0 (hp (heap st target) - damage res) = 0)
     \<and> heap st' = (heap st)(target := (heap st target)
           \<lparr>hp := max 0 (hp (heap st target) - damage res)\<rparr>)
     \<and> playerTeam st' = playerTeam st \<and> enemyTeam st' = enemyTeam st
     \<and> isProcessingTurn st' = isProcessingTurn st \<and> battlePhase st' = battlePhase st"
proof -
  define dmg where "dmg = calculateDamage (heap st attacker) g (heap st target)"
  define h' where "h' = (heap st)(target := fst (takeDamage (heap st target) dmg))"
  define st1 where "st1 = st\<lparr>heap := h'\<rparr>"
  define res where "res = \<lparr>attackerName = getDisplayName (heap st1 attacker), attackGene = g,
                         targetName = getDisplayName (heap st1 target), damage = dmg,
                         effectiveness = getEffectiveness g (heap st target),
                         targetDefeated = snd (takeDamage (heap st target) dmg)\<rparr>"
  have run: "processSingleAttack st attacker g (Some target) =
      (if snd (takeDamage (heap st target) dmg)
       then (case updateTurnQueue st1 of None \<Rightarrow> None | Some st2 \<Rightarrow> Some (Inr res, st2))
       else Some (Inr res, st1))"
    unfolding processSingleAttack_def Let_def res_def st1_def h'_def dmg_def by simp
  have h't: "h' = (heap st)(target := (heap st target)\<lparr>hp := max 0 (hp (heap st target) - dmg)\<rparr>)"
    by (simp add: h'_def takeDamage_fst)
  have fields: "\<forall>a. cid (h' a) = cid (heap st a) \<and> isPlayer (h' a) = isPlayer (heap st a)
             \<and> speed (h' a) = speed (heap st a)"
    by (simp add: h't)
  have "\<forall>a. isAlive (h' a) \<longrightarrow> isAlive (heap st a)"
    using assms(2) by (simp add: h't alive_def)
  with assms(1) fields have "schedulable st1"
    unfolding st1_def by (rule schedulable_damage)
  from updateTurnQueue_returns [OF this]
  obtain b ts where upd: "updateTurnQueue st1 =
      Some (st1\<lparr>actionBars := b, upcomingTurns := ts, turnQueue := take 6 ts\<rparr>)" by blast
  define st' where "st' = (if snd (takeDamage (heap st target) dmg)
      then st1\<lparr>actionBars := b, upcomingTurns := ts, turnQueue := take 6 ts\<rparr> else st1)"
  have ret: "processSingleAttack st attacker g (Some target) = Some (Inr res, st')"
    unfolding run st'_def by (simp add: upd)
  have d: "damage res = attack (heap st attacker) * getEffectiveness g (heap st target)"
    by (simp add: res_def dmg_def calculateDamage_def)
  have dm: "damage res = dmg" by (simp add: res_def)
  have e: "effectiveness res = getEffectiveness g (heap st target)" by (simp add: res_def)
  have td: "targetDefeated res = (max 0 (hp (heap st target) - damage res) = 0)"
    by (simp add: res_def takeDamage_snd)
  have heap': "heap st' = (heap st)(target := (heap st target)
           \<lparr>hp := max 0 (hp (heap st target) - damage res)\<rparr>)"
    unfolding dm by (simp add: st'_def st1_def h't)
  have fr: "playerTeam st' = playerTeam st" "enemyTeam st' = enemyTeam st"
    "isProcessingTurn st' = isProcessingTurn st" "battlePhase st' = battlePhase st"
    by (simp_all add: st'_def st1_def)
  from ret d e td heap' fr show ?thesis by blast
qed

text \<open>
  C1. In a schedulable battle, a single attack on a living target by a living attacker
  returns a result whose damage is the attacker's attack times the effectiveness of the
  attack gene against the target (against the target's first gene, by the wheel); the
  target's hp becomes \<open>max 0 (hp - damage)\<close>, which is never negative; \<open>targetDefeated\<close>
  holds exactly when that hp is 0; no other character changes.
\<close>

theorem single_attack_damage:
  assumes "schedulable st" and "alive st attacker" and "alive st target"
  shows "\<exists>res st'. processSingleAttack st attacker g (Some target) = Some (Inr res, st')
     \<and> damage res = attack (heap st attacker) * getEffectiveness g (heap st target)
     \<and> (\<forall>d rest. genes (heap st target) = d # rest \<longrightarrow>
           damage res = attack (heap st attacker) * wheelMultiplier g d)
     \<and> effectiveness res = getEffectiveness g (heap st target)
     \<and> hp (heap st' target) = max 0 (hp (heap st target) - damage res)
     \<and> 0 \<le> hp (heap st' target)
     \<and> (targetDefeated res \<longleftrightarrow> hp (heap st' target) = 0)
     \<and> (\<forall>a. a \<noteq> target \<longrightarrow> heap st' a = heap st a)"
proof -
  from processSingleAttack_returns [OF assms(1) assms(3), of attacker g]
  obtain res st' where
    ret: "processSingleAttack st attacker g (Some target) = Some (Inr res, st')"
    and d: "damage res = attack (heap st attacker) * getEffectiveness g (heap st target)"
    and e: "effectiveness res = getEffectiveness g (heap st target)"
    and td0: "targetDefeated res = (max 0 (hp (heap st target) - damage res) = 0)"
    and heap': "heap st' = (heap st)(target := (heap st target)
           \<lparr>hp := max 0 (hp (heap st target) - damage res)\<rparr>)"
    by blast
  have w: "\<forall>d rest. genes (heap st target) = d # rest \<longrightarrow>
           damage res = attack (heap st attacker) * wheelMultiplier g d"
  proof (intro allI impI)
    fix d rest assume "genes (heap st target) = d # rest"
    then have "getEffectiveness g (heap st target)
        = getEffectiveness g ((heap st target)\<lparr>genes := d # rest\<rparr>)"
      by (simp add: getEffectiveness_def)
    then show "damage res = attack (heap st attacker) * wheelMultiplier g d"
      unfolding d by (simp only: getEffectiveness_wheel)
  qed
  have hpv: "hp (heap st' target) = max 0 (hp (heap st target) - damage res)"
    by (simp add: heap')
  have nn: "0 \<le> hp (heap st' target)" unfolding hpv by simp
  have td: "targetDefeated res \<longleftrightarrow> hp (heap st' target) = 0"
    unfolding hpv td0 by simp
  have oth: "\<forall>a. a \<noteq> target \<longrightarrow> heap st' a = heap st a"
    by (simp add: heap')
  from ret d w e hpv nn td oth show ?thesis by blast
qed

theorem single_attack_damage_witness:
  "schedulable sampleBattle \<and> alive sampleBattle 11 \<and> alive sampleBattle 20
   \<and> hp (heap sampleBattle 20) = 60
   \<and> (\<exists>res st'. processSingleAttack sampleBattle 11 Red (Some 20) = Some (Inr res, st')
         \<and> damage res = 75 \<and> hp (heap st' 20) = 0 \<and> targetDefeated res)"
proof -
  have at: "attack (heap sampleBattle 11) = 60" "hp (heap sampleBattle 20) = 60"
    "getEffectiveness Red (heap sampleBattle 20) = 5/4"
    by (simp_all add: sampleBattle_def sample_chars getEffectiveness_def TYPE_EFFECTIVENESS_def)
  from single_attack_damage [OF sample_schedulable sample_alive(2) sample_alive(4), of Red]
  obtain res st' where
    "processSingleAttack sampleBattle 11 Red (Some 20) = Some (Inr res, st')"
    "damage res = attack (heap sampleBattle 11) * getEffectiveness Red (heap sampleBattle 20)"
    "hp (heap st' 20) = max 0 (hp (heap sampleBattle 20) - damage res)"
    "targetDefeated res \<longleftrightarrow> hp (heap st' 20) = 0"
    by blast
  then have "processSingleAttack sampleBattle 11 Red (Some 20) = Some (Inr res, st')
         \<and> damage res = 75 \<and> hp (heap st' 20) = 0 \<and> targetDefeated res"
    by (simp add: at)
  then show ?thesis
    using sample_schedulable sample_alive(2) sample_alive(4) at(2) by blast
qed

section \<open>The turn-in-progress guard\<close>

text \<open>
  C7. While the turn-in-progress flag is set, \<open>processTurn\<close> returns the failure
  \<open>already_processing\<close> as a value and the battle state is exactly the one it was given.
\<close>

theorem processTurn_already_processing:
  assumes "isProcessingTurn st"
  shows "processTurn st atk targetCharacter = Some (Inr (Failure already_processing), st)"
  using assms by (simp add: processTurn_def)

theorem processTurn_already_processing_witness:
  "isProcessingTurn (sampleBattle\<lparr>isProcessingTurn := True\<rparr>)
   \<and> processTurn (sampleBattle\<lparr>isProcessingTurn := True\<rparr>) \<lparr>gene = Blue, atype = Single\<rparr> (Some 20)
       = Some (Inr (Failure already_processing), sampleBattle\<lparr>isProcessingTurn := True\<rparr>)"
proof -
  have f: "isProcessingTurn (sampleBattle\<lparr>isProcessingTurn := True\<rparr>)" by simp
  from processTurn_already_processing [OF f] f show ?thesis by blast
qed

section \<open>Splash attacks\<close>

lemma getEffectiveness_hp [simp]: "getEffectiveness g (c\<lparr>hp := x\<rparr>) = getEffectiveness g c"
  by (simp add: getEffectiveness_def)

lemma splashHit_heap:
  "fst (splashHit a g t s) =
     (fst s)(t := (fst s t)\<lparr>hp := max 0 (hp (fst s t)
        - attack (fst s a) * getEffectiveness g (fst s t) * SPLASH_DAMAGE_MULTIPLIER)\<rparr>)"
  by (simp add: splashHit_def Let_def takeDamage_fst calculateDamage_def)

lemma splashHit_results:
  "map splashDamage (snd (splashHit a g t s)) =
     map splashDamage (snd s)
       @ [attack (fst s a) * getEffectiveness g (fst s t) * SPLASH_DAMAGE_MULTIPLIER]"
  by (simp add: splashHit_def Let_def calculateDamage_def)

lemma fold_splashHit_attack:
  "attack (fst (fold (splashHit a g) ts s) x) = attack (fst s x)
   \<and> genes (fst (fold (splashHit a g) ts s) x) = genes (fst s x)
   \<and> cid (fst (fold (splashHit a g) ts s) x) = cid (fst s x)
   \<and> isPlayer (fst (fold (splashHit a g) ts s) x) = isPlayer (fst s x)
   \<and> speed (fst (fold (splashHit a g) ts s) x) = speed (fst s x)"
proof (induction ts arbitrary: s)
  case Nil
  show ?case by simp
next
  case (Cons t ts)
  show ?case
    by (simp add: Cons.IH [of "splashHit a g t s"]) (simp add: splashHit_heap)
qed

lemma getEffectiveness_genes:
  "genes c = genes c' \<Longrightarrow> getEffectiveness g c = getEffectiveness g c'"
  by (simp add: getEffectiveness_def)

lemma fold_splashHit_heap:
  assumes "distinct ts"
  shows "fst (fold (splashHit a g) ts s) x =
     (if x \<in> set ts
      then (fst s x)\<lparr>hp := max 0 (hp (fst s x)
              - attack (fst s a) * getEffectiveness g (fst s x) * SPLASH_DAMAGE_MULTIPLIER)\<rparr>
      else fst s x)"
  using assms
proof (induction ts arbitrary: s)
  case Nil
  show ?case by simp
next
  case (Cons t ts)
  let ?s1 = "splashHit a g t s"
  from Cons.prems have d: "distinct ts" and nt: "t \<notin> set ts" by simp_all
  have att: "attack (fst ?s1 a) = attack (fst s a)"
    by (simp add: splashHit_heap)
  show ?case
  proof (cases "x \<in> set ts")
    case True
    with nt have "x \<noteq> t" by auto
    then have "fst ?s1 x = fst s x" by (simp add: splashHit_heap)
    with True Cons.IH [OF d, of ?s1] att show ?thesis by simp
  next
    case False
    with Cons.IH [OF d, of ?s1] have "fst (fold (splashHit a g) (t # ts) s) x = fst ?s1 x"
      by simp
    then show ?thesis using False by (simp add: splashHit_heap)
  qed
qed

lemma fold_splashHit_results:
  "map splashDamage (snd (fold (splashHit a g) ts s)) =
     map splashDamage (snd s)
       @ map (\<lambda>t. attack (fst s a) * getEffectiveness g (fst s t) * SPLASH_DAMAGE_MULTIPLIER) ts"
proof (induction ts arbitrary: s)
  case Nil
  show ?case by simp
next
  case (Cons t ts)
  let ?s1 = "splashHit a g t s"
  have att: "attack (fst ?s1 a) = attack (fst s a)"
    by (simp add: splashHit_heap)
  have eff: "\<And>u. getEffectiveness g (fst ?s1 u) = getEffectiveness g (fst s u)"
    by (simp add: splashHit_heap)
  show ?case
    by (simp add: Cons.IH [of ?s1] att eff splashHit_results)
qed

lemma splashTargets_facts:
  "length (splashTargets st a) \<le> 3"
  "\<forall>t \<in> set (splashTargets st a). alive st t"
  "set (splashTargets st a) \<subseteq>
     (if truthy (isPlayer (heap st a)) then set (enemyTeam st) else set (playerTeam st))"
  by (auto simp: splashTargets_def dest: in_set_takeD)

lemma schedulable_distinct:
  assumes "schedulable st"
  shows "distinct (playerTeam st @ enemyTeam st)"
  using assms unfolding schedulable_def by (metis distinct_map)

lemma splashTargets_distinct:
  assumes "schedulable st"
  shows "distinct (splashTargets st a)"
  using schedulable_distinct [OF assms] by (simp add: splashTargets_def)

text \<open>
  What a splash attack does in a schedulable battle: it returns, every target loses
  \<open>attack * effectiveness / 2\<close> hp (down to 0 at most), that amount is reported for it,
  and of the other fields only the scheduler's may change.
\<close>

lemma processSplashAttack_returns:
  assumes "schedulable st"
  shows "\<exists>res st'. processSplashAttack st attacker g = Some (res, st')
     \<and> (\<forall>x. heap st' x =
           (if x \<in> set (splashTargets st attacker)
            then (heap st x)\<lparr>hp := max 0 (hp (heap st x)
                    - attack (heap st attacker) * getEffectiveness g (heap st x) * (1/2))\<rparr>
            else heap st x))
     \<and> map splashDamage (targets res) =
           map (\<lambda>t. attack (heap st attacker) * getEffectiveness g (heap st t) * (1/2))
             (splashTargets st attacker)
     \<and> playerTeam st' = playerTeam st \<and> enemyTeam st' = enemyTeam st
     \<and> isProcessingTurn st' = isProcessingTurn st \<and> battlePhase st' = battlePhase st"
proof -
  let ?tg = "splashTargets st attacker"
  define hits where "hits = fold (splashHit attacker g) ?tg (heap st, [])"
  define res where "res = \<lparr>splashAttacker = getDisplayName (heap st attacker), splashGene = g,
                     targets = snd hits\<rparr>"
  have dist: "distinct ?tg" using assms(1) by (rule splashTargets_distinct)
  have hv: "\<And>x. fst hits x =
     (if x \<in> set ?tg
      then (heap st x)\<lparr>hp := max 0 (hp (heap st x)
              - attack (heap st attacker) * getEffectiveness g (heap st x) * (1/2))\<rparr>
      else heap st x)"
    unfolding hits_def using fold_splashHit_heap [OF dist, of attacker g "(heap st, [])"]
    by (simp add: SPLASH_DAMAGE_MULTIPLIER_def)
  have fields: "\<forall>a. cid (fst hits a) = cid (heap st a) \<and> isPlayer (fst hits a) = isPlayer (heap st a)
             \<and> speed (fst hits a) = speed (heap st a)"
    by (simp add: hv)
  have "\<forall>a. isAlive (fst hits a) \<longrightarrow> isAlive (heap st a)"
    using splashTargets_facts(2) [of st attacker] by (auto simp: hv alive_def)
  with assms(1) fields have "schedulable (st\<lparr>heap := fst hits\<rparr>)"
    by (rule schedulable_damage)
  from updateTurnQueue_returns [OF this]
  obtain b ts where upd: "updateTurnQueue (st\<lparr>heap := fst hits\<rparr>) =
      Some (st\<lparr>heap := fst hits, actionBars := b, upcomingTurns := ts, turnQueue := take 6 ts\<rparr>)"
    by auto
  define st' where "st' = st\<lparr>heap := fst hits, actionBars := b, upcomingTurns := ts,
      turnQueue := take 6 ts\<rparr>"
  have ret: "processSplashAttack st attacker g = Some (res, st')"
    unfolding processSplashAttack_def Let_def hits_def [symmetric] res_def [symmetric]
    by (simp add: upd st'_def)
  have heap': "\<forall>x. heap st' x =
           (if x \<in> set ?tg
            then (heap st x)\<lparr>hp := max 0 (hp (heap st x)
                    - attack (heap st attacker) * getEffectiveness g (heap st x) * (1/2))\<rparr>
            else heap st x)"
    by (simp add: st'_def hv)
  have dm: "map splashDamage (targets res) =
                map (\<lambda>t. attack (heap st attacker) * getEffectiveness g (heap st t) * (1/2)) ?tg"
    unfolding res_def hits_def
    using fold_splashHit_results [of attacker g ?tg "(heap st, [])"]
    by (simp add: SPLASH_DAMAGE_MULTIPLIER_def)
  have fr: "playerTeam st' = playerTeam st" "enemyTeam st' = enemyTeam st"
    "isProcessingTurn st' = isProcessingTurn st" "battlePhase st' = battlePhase st"
    by (simp_all add: st'_def)
  from ret heap' dm fr show ?thesis by blast
qed


lemma sample_marked: "teamsMarked sampleBattle"
  unfolding teamsMarked_def
  by (simp add: sampleBattle_def sample_chars)



section \<open>Battle end\<close>

lemma livingCount_zero: "livingCount st team = 0 \<longleftrightarrow> \<not> list_ex (alive st) team"
  by (simp add: livingCount_def list_ex_iff filter_empty_conv)

lemma schedulable_flag:
  "schedulable (st\<lparr>isProcessingTurn := f\<rparr>) = schedulable st"
  by (simp add: schedulable_def alive_def charKey_def)

lemma checkBattleEnd_report:
  "ended (fst (checkBattleEnd st))
     = (livingCount st (playerTeam st) = 0 \<or> livingCount st (enemyTeam st) = 0)"
  "winner (fst (checkBattleEnd st))
     = (if livingCount st (playerTeam st) = 0 then Some Enemy
        else if livingCount st (enemyTeam st) = 0 then Some Player else None)"
  "heap (snd (checkBattleEnd st)) = heap st"
  "playerTeam (snd (checkBattleEnd st)) = playerTeam st"
  "enemyTeam (snd (checkBattleEnd st)) = enemyTeam st"
  "battlePhase (snd (checkBattleEnd st))
     = (if livingCount st (playerTeam st) = 0 \<or> livingCount st (enemyTeam st) = 0
        then Ended else battlePhase st)"
  by (simp_all add: checkBattleEnd_def Let_def livingCount_zero clearAllTimers_def)

lemma livingCount_heap:
  assumes "heap st' = heap st"
  shows "livingCount st' team = livingCount st team"
  using assms by (simp add: livingCount_def alive_def)

text \<open>
  When the attack has returned, \<open>processTurn\<close> reports what \<open>checkBattleEnd\<close> finds
  in the state the attack left.
\<close>

lemma processTurn_after_attack:
  assumes "\<not> isProcessingTurn st"
    and "getCurrentCharacter st = Some attacker" and "alive st attacker"
    and "(if atype atk = Splash
          then (case processSplashAttack (st\<lparr>isProcessingTurn := True\<rparr>) attacker (gene atk) of
                  None \<Rightarrow> None
                | Some (r, st2) \<Rightarrow> Some (Inr (SplashResult r), st2))
          else (case processSingleAttack (st\<lparr>isProcessingTurn := True\<rparr>) attacker (gene atk)
                       targetCharacter of
                  None \<Rightarrow> None
                | Some (Inl e, st2) \<Rightarrow> Some (Inl e, st2)
                | Some (Inr r, st2) \<Rightarrow> Some (Inr (SingleResult r), st2)))
         = Some (Inr res, st2)"
  shows "processTurn st atk targetCharacter =
     Some (Inr (Success res (ended (fst (checkBattleEnd st2)))
                 (if ended (fst (checkBattleEnd st2)) then winner (fst (checkBattleEnd st2))
                  else None)),
           (snd (checkBattleEnd st2))\<lparr>isProcessingTurn := False\<rparr>)"
proof -
  have cur: "getCurrentCharacter (st\<lparr>isProcessingTurn := True\<rparr>) = Some attacker"
    using assms(2) by (simp add: getCurrentCharacter_def)
  have al: "alive (st\<lparr>isProcessingTurn := True\<rparr>) attacker"
    using assms(3) by (simp add: alive_def)
  show ?thesis
    unfolding processTurn_def Let_def
    by (simp only: assms(1) if_False cur option.case al not_True_eq_False assms(4)
        prod.case sum.case not_not)
       simp
qed

lemma livingCount_unchanged:
  assumes "\<forall>x \<in> set team. heap st' x = heap st x"
  shows "livingCount st' team = livingCount st team"
proof -
  have "filter (alive st') team = filter (alive st) team"
    using assms by (intro filter_cong) (simp_all add: alive_def)
  then show ?thesis by (simp add: livingCount_def)
qed

text \<open>
  An attack made while both teams have a living member leaves at least one team with a
  living member: a single attack changes one character, and the teams share none; a
  splash attack changes members of one team only.
\<close>

lemma single_attack_leaves_a_team:
  assumes "distinct (playerTeam st @ enemyTeam st)"
    and "0 < livingCount st (playerTeam st)" and "0 < livingCount st (enemyTeam st)"
    and "heap st2 = (heap st)(t := c)"
  shows "0 < livingCount st2 (playerTeam st) \<or> 0 < livingCount st2 (enemyTeam st)"
proof (cases "t \<in> set (playerTeam st)")
  case True
  with assms(1) have "t \<notin> set (enemyTeam st)" by auto
  then have "\<forall>x \<in> set (enemyTeam st). heap st2 x = heap st x"
    using assms(4) by auto
  from livingCount_unchanged [OF this] assms(3) show ?thesis by simp
next
  case False
  then have "\<forall>x \<in> set (playerTeam st). heap st2 x = heap st x"
    using assms(4) by auto
  from livingCount_unchanged [OF this] assms(2) show ?thesis by simp
qed

lemma splash_attack_leaves_a_team:
  assumes "distinct (playerTeam st @ enemyTeam st)"
    and "0 < livingCount st (playerTeam st)" and "0 < livingCount st (enemyTeam st)"
    and "\<forall>x. x \<notin> set (splashTargets st attacker) \<longrightarrow> heap st2 x = heap st x"
  shows "0 < livingCount st2 (playerTeam st) \<or> 0 < livingCount st2 (enemyTeam st)"
proof (cases "truthy (isPlayer (heap st attacker))")
  case True
  with splashTargets_facts(3) [of st attacker]
  have "set (splashTargets st attacker) \<subseteq> set (enemyTeam st)" by simp
  with assms(1) have "\<forall>x \<in> set (playerTeam st). x \<notin> set (splashTargets st attacker)" by auto
  with assms(4) have "\<forall>x \<in> set (playerTeam st). heap st2 x = heap st x" by blast
  from livingCount_unchanged [OF this] assms(2) show ?thesis by simp
next
  case False
  with splashTargets_facts(3) [of st attacker]
  have "set (splashTargets st attacker) \<subseteq> set (playerTeam st)" by simp
  with assms(1) have "\<forall>x \<in> set (enemyTeam st). x \<notin> set (splashTargets st attacker)" by auto
  with assms(4) have "\<forall>x \<in> set (enemyTeam st). heap st2 x = heap st x" by blast
  from livingCount_unchanged [OF this] assms(3) show ?thesis by simp
qed

text \<open>
  C6. A turn processed in a battle that is on (both teams have a living member, the
  current character is alive, a single attack has a living target) returns a success
  whose \<open>battleEnded\<close> flag holds exactly when a team's count of living members is 0 in
  the resulting state; the phase is \<open>Ended\<close> and a winner is set exactly then, and the
  winner is the side that has a living member while the other has none.
\<close>

theorem battle_end_exact:
  assumes sch: "schedulable st" and np: "\<not> isProcessingTurn st"
    and cur: "getCurrentCharacter st = Some attacker" and al: "alive st attacker"
    and ph: "battlePhase st = Battle"
    and both: "0 < livingCount st (playerTeam st)" "0 < livingCount st (enemyTeam st)"
    and tgt: "atype atk = Splash \<or> (\<exists>t. targetCharacter = Some t \<and> alive st t)"
  shows "\<exists>res isEnded w st'.
      processTurn st atk targetCharacter = Some (Inr (Success res isEnded w), st')
      \<and> (isEnded \<longleftrightarrow> livingCount st' (playerTeam st') = 0 \<or> livingCount st' (enemyTeam st') = 0)
      \<and> (battlePhase st' = Ended \<longleftrightarrow> isEnded)
      \<and> (w \<noteq> None \<longleftrightarrow> isEnded)
      \<and> (w = Some Player \<longrightarrow>
            0 < livingCount st' (playerTeam st') \<and> livingCount st' (enemyTeam st') = 0)
      \<and> (w = Some Enemy \<longrightarrow>
            0 < livingCount st' (enemyTeam st') \<and> livingCount st' (playerTeam st') = 0)
      \<and> \<not> isProcessingTurn st'"
proof -
  define st1 where "st1 = st\<lparr>isProcessingTurn := True\<rparr>"
  have sch1: "schedulable st1" using sch by (simp add: st1_def schedulable_flag)
  have st1: "heap st1 = heap st" "playerTeam st1 = playerTeam st" "enemyTeam st1 = enemyTeam st"
    "battlePhase st1 = battlePhase st"
    by (simp_all add: st1_def)
  have lc1: "\<And>team. livingCount st1 team = livingCount st team"
    by (rule livingCount_heap) (simp add: st1)
  have dist: "distinct (playerTeam st1 @ enemyTeam st1)"
    using sch1 by (rule schedulable_distinct)
  have both1: "0 < livingCount st1 (playerTeam st1)" "0 < livingCount st1 (enemyTeam st1)"
    using both by (simp_all add: lc1 st1)
  have "\<exists>res st2.
      (if atype atk = Splash
          then (case processSplashAttack st1 attacker (gene atk) of
                  None \<Rightarrow> None
                | Some (r, st2) \<Rightarrow> Some (Inr (SplashResult r), st2))
          else (case processSingleAttack st1 attacker (gene atk) targetCharacter of
                  None \<Rightarrow> None
                | Some (Inl e, st2) \<Rightarrow> Some (Inl e, st2)
                | Some (Inr r, st2) \<Rightarrow> Some (Inr (SingleResult r), st2)))
         = Some (Inr res, st2)
      \<and> playerTeam st2 = playerTeam st \<and> enemyTeam st2 = enemyTeam st
      \<and> battlePhase st2 = Battle
      \<and> (0 < livingCount st2 (playerTeam st) \<or> 0 < livingCount st2 (enemyTeam st))"
  proof (cases "atype atk = Splash")
    case True
    from processSplashAttack_returns [OF sch1, of attacker "gene atk"]
    obtain r st2 where ret: "processSplashAttack st1 attacker (gene atk) = Some (r, st2)"
      and hp2: "\<forall>x. heap st2 x =
           (if x \<in> set (splashTargets st1 attacker)
            then (heap st1 x)\<lparr>hp := max 0 (hp (heap st1 x)
                    - attack (heap st1 attacker) * getEffectiveness (gene atk) (heap st1 x) * (1/2))\<rparr>
            else heap st1 x)"
      and fr: "playerTeam st2 = playerTeam st1" "enemyTeam st2 = enemyTeam st1"
        "battlePhase st2 = battlePhase st1"
      by blast
    from hp2 have "\<forall>x. x \<notin> set (splashTargets st1 attacker) \<longrightarrow> heap st2 x = heap st1 x"
      by simp
    from splash_attack_leaves_a_team [OF dist both1 this]
    have "0 < livingCount st2 (playerTeam st1) \<or> 0 < livingCount st2 (enemyTeam st1)" .
    with True ret fr show ?thesis by (simp add: st1 ph)
  next
    case False
    with tgt obtain t where t: "targetCharacter = Some t" "alive st t" by blast
    then have "alive st1 t" by (simp add: alive_def st1)
    from processSingleAttack_returns [OF sch1 this, of attacker "gene atk"]
    obtain r st2 where ret: "processSingleAttack st1 attacker (gene atk) (Some t) = Some (Inr r, st2)"
      and hp2: "heap st2 = (heap st1)(t := (heap st1 t)
           \<lparr>hp := max 0 (hp (heap st1 t) - damage r)\<rparr>)"
      and fr: "playerTeam st2 = playerTeam st1" "enemyTeam st2 = enemyTeam st1"
        "battlePhase st2 = battlePhase st1"
      by blast
    from single_attack_leaves_a_team [OF dist both1 hp2]
    have "0 < livingCount st2 (playerTeam st1) \<or> 0 < livingCount st2 (enemyTeam st1)" .
    with False ret fr t(1) show ?thesis by (simp add: st1 ph)
  qed
  then obtain res st2 where
    att: "(if atype atk = Splash
          then (case processSplashAttack st1 attacker (gene atk) of
                  None \<Rightarrow> None
                | Some (r, st2) \<Rightarrow> Some (Inr (SplashResult r), st2))
          else (case processSingleAttack st1 attacker (gene atk) targetCharacter of
                  None \<Rightarrow> None
                | Some (Inl e, st2) \<Rightarrow> Some (Inl e, st2)
                | Some (Inr r, st2) \<Rightarrow> Some (Inr (SingleResult r), st2)))
         = Some (Inr res, st2)"
    and teams: "playerTeam st2 = playerTeam st" "enemyTeam st2 = enemyTeam st"
    and ph2: "battlePhase st2 = Battle"
    and one: "0 < livingCount st2 (playerTeam st) \<or> 0 < livingCount st2 (enemyTeam st)"
    by blast
  define st' where "st' = (snd (checkBattleEnd st2))\<lparr>isProcessingTurn := False\<rparr>"
  define e where "e = ended (fst (checkBattleEnd st2))"
  define w where "w = (if e then winner (fst (checkBattleEnd st2)) else None)"
  have ret: "processTurn st atk targetCharacter = Some (Inr (Success res e w), st')"
    unfolding st'_def e_def w_def
    using np cur al att [unfolded st1_def] by (rule processTurn_after_attack)
  have t': "playerTeam st' = playerTeam st" "enemyTeam st' = enemyTeam st"
    by (simp_all add: st'_def checkBattleEnd_report teams)
  have lc': "\<And>team. livingCount st' team = livingCount st2 team"
    by (rule livingCount_heap) (simp add: st'_def checkBattleEnd_report)
  have ev: "e \<longleftrightarrow> livingCount st2 (playerTeam st) = 0 \<or> livingCount st2 (enemyTeam st) = 0"
    by (simp add: e_def checkBattleEnd_report teams)
  have c1: "e \<longleftrightarrow> livingCount st' (playerTeam st') = 0 \<or> livingCount st' (enemyTeam st') = 0"
    by (simp add: ev t' lc')
  have c2: "battlePhase st' = Ended \<longleftrightarrow> e"
    by (simp add: st'_def checkBattleEnd_report teams ev ph2)
  have wv: "w = (if livingCount st2 (playerTeam st) = 0 then Some Enemy
        else if livingCount st2 (enemyTeam st) = 0 then Some Player else None)"
    by (simp add: w_def ev checkBattleEnd_report teams)
  have c3: "w \<noteq> None \<longleftrightarrow> e" by (simp add: wv ev)
  have c4: "w = Some Player \<longrightarrow>
            0 < livingCount st' (playerTeam st') \<and> livingCount st' (enemyTeam st') = 0"
    by (simp add: wv t' lc' split: if_splits)
  have c5: "w = Some Enemy \<longrightarrow>
            0 < livingCount st' (enemyTeam st') \<and> livingCount st' (playerTeam st') = 0"
    using one by (auto simp: wv t' lc' split: if_splits)
  have c6: "\<not> isProcessingTurn st'" by (simp add: st'_def)
  show ?thesis
    by (rule exI [of _ res], rule exI [of _ e], rule exI [of _ w], rule exI [of _ st'])
       (intro conjI ret c1 c2 c3 c4 c5 c6)
qed

lemma sample_living:
  "0 < livingCount sampleBattle (playerTeam sampleBattle)"
  "0 < livingCount sampleBattle (enemyTeam sampleBattle)"
proof -
  have "playerTeam sampleBattle = [10, 11, 12]" "enemyTeam sampleBattle = [20, 21, 22]"
    by (simp_all add: sampleBattle_def)
  then show "0 < livingCount sampleBattle (playerTeam sampleBattle)"
    "0 < livingCount sampleBattle (enemyTeam sampleBattle)"
    using sample_alive by (simp_all add: livingCount_def)
qed

lemma sample_turn:
  "\<not> isProcessingTurn sampleBattle" "getCurrentCharacter sampleBattle = Some 12"
  "battlePhase sampleBattle = Battle"
  by (simp_all add: sampleBattle_def getCurrentCharacter_def)

lemma endgame_chars:
  "heap sampleEndgame 10 = sampleHeap 10" "heap sampleEndgame 11 = sampleHeap 11"
  "heap sampleEndgame 12 = sampleHeap 12"
  "heap sampleEndgame 20 = (sampleHeap 20)\<lparr>hp := 30\<rparr>"
  "heap sampleEndgame 21 = (sampleHeap 21)\<lparr>hp := 0\<rparr>"
  "heap sampleEndgame 22 = (sampleHeap 22)\<lparr>hp := 0\<rparr>"
  by (simp_all add: sampleEndgame_def)

lemma endgame_keys:
  "charKey sampleEndgame 10 = ''Red-P''" "charKey sampleEndgame 11 = ''Red-Blue-P''"
  "charKey sampleEndgame 12 = ''Blue-P''" "charKey sampleEndgame 20 = ''Yellow-E''"
  "charKey sampleEndgame 21 = ''Yellow-Yellow-E''" "charKey sampleEndgame 22 = ''Yellow-Red-E''"
  by (simp_all add: charKey_def endgame_chars sample_chars getCharId_def truthy_def)

lemma endgame_alive:
  "alive sampleEndgame 10" "alive sampleEndgame 11" "alive sampleEndgame 12"
  "alive sampleEndgame 20" "\<not> alive sampleEndgame 21" "\<not> alive sampleEndgame 22"
  by (simp_all add: alive_def endgame_chars sample_chars isAlive_def)

lemma endgame_teams:
  "playerTeam sampleEndgame = [10, 11, 12]" "enemyTeam sampleEndgame = [20, 21, 22]"
  by (simp_all add: sampleEndgame_def sampleBattle_def)

lemma endgame_schedulable: "schedulable sampleEndgame"
proof -
  have b: "actionBars sampleEndgame =
      [''Red-P'' \<mapsto> Num 0, ''Red-Blue-P'' \<mapsto> Num 0, ''Blue-P'' \<mapsto> Num 0,
       ''Yellow-E'' \<mapsto> Num 0]"
    by (simp add: sampleEndgame_def)
  show ?thesis
    unfolding schedulable_def endgame_teams b
    using endgame_alive by (simp add: endgame_keys endgame_chars sample_chars)
qed

lemma endgame_living:
  "0 < livingCount sampleEndgame (playerTeam sampleEndgame)"
  "0 < livingCount sampleEndgame (enemyTeam sampleEndgame)"
  unfolding endgame_teams using endgame_alive by (simp_all add: livingCount_def)

lemma endgame_turn:
  "\<not> isProcessingTurn sampleEndgame" "getCurrentCharacter sampleEndgame = Some 12"
  "battlePhase sampleEndgame = Battle"
  by (simp_all add: sampleEndgame_def sampleBattle_def getCurrentCharacter_def)

text \<open>
  Blue's attack (40, at effectiveness 3/4) on the last opponent, who has 30 hp, ends the
  battle for the player; the scheduler goes on with the three allies.
\<close>

lemma endgame_last_hit:
  "map_option (\<lambda>(r, st').
       (case r of Inr (Success res e w) \<Rightarrow> Some (e, w) | _ \<Rightarrow> None,
        battlePhase st', map (\<lambda>a. hp (heap st' a)) [20, 21, 22], isProcessingTurn st',
        take 6 (upcomingTurns st')))
     (processTurn sampleEndgame \<lparr>gene = Blue, atype = Single\<rparr> (Some 20))
   = Some (Some (True, Some Player), Ended, [0, 0, 0], False, [12, 11, 12, 11, 10, 12])"
  by code_simp

theorem battle_end_exact_witness:
  "schedulable sampleEndgame \<and> \<not> isProcessingTurn sampleEndgame
   \<and> getCurrentCharacter sampleEndgame = Some 12 \<and> alive sampleEndgame 12
   \<and> battlePhase sampleEndgame = Battle
   \<and> 0 < livingCount sampleEndgame (playerTeam sampleEndgame)
   \<and> 0 < livingCount sampleEndgame (enemyTeam sampleEndgame)
   \<and> alive sampleEndgame 20
   \<and> (\<exists>res st'.
        processTurn sampleEndgame \<lparr>gene = Blue, atype = Single\<rparr> (Some 20)
          = Some (Inr (Success res True (Some Player)), st')
        \<and> livingCount st' (enemyTeam st') = 0 \<and> 0 < livingCount st' (playerTeam st')
        \<and> battlePhase st' = Ended \<and> \<not> isProcessingTurn st')"
proof -
  have tgt: "atype \<lparr>gene = Blue, atype = Single\<rparr> = Splash
             \<or> (\<exists>t. Some (20::addr) = Some t \<and> alive sampleEndgame t)"
    using endgame_alive(4) by simp
  from battle_end_exact [OF endgame_schedulable endgame_turn(1) endgame_turn(2) endgame_alive(3)
      endgame_turn(3) endgame_living tgt]
  obtain res isEnded w st' where
    all: "processTurn sampleEndgame \<lparr>gene = Blue, atype = Single\<rparr> (Some 20)
          = Some (Inr (Success res isEnded w), st')
      \<and> (isEnded \<longleftrightarrow>
             livingCount st' (playerTeam st') = 0 \<or> livingCount st' (enemyTeam st') = 0)
      \<and> (battlePhase st' = Ended \<longleftrightarrow> isEnded)
      \<and> (w \<noteq> None \<longleftrightarrow> isEnded)
      \<and> (w = Some Player \<longrightarrow>
              0 < livingCount st' (playerTeam st') \<and> livingCount st' (enemyTeam st') = 0)
      \<and> (w = Some Enemy \<longrightarrow>
              0 < livingCount st' (enemyTeam st') \<and> livingCount st' (playerTeam st') = 0)
      \<and> \<not> isProcessingTurn st'"
    by (elim exE) (rule that)
  from all have
    ret: "processTurn sampleEndgame \<lparr>gene = Blue, atype = Single\<rparr> (Some 20)
          = Some (Inr (Success res isEnded w), st')"
    and ph: "battlePhase st' = Ended \<longleftrightarrow> isEnded"
    and wp: "w = Some Player \<longrightarrow>
              0 < livingCount st' (playerTeam st') \<and> livingCount st' (enemyTeam st') = 0"
    and fl: "\<not> isProcessingTurn st'"
    by simp_all
  from endgame_last_hit have "isEnded = True \<and> w = Some Player"
    unfolding ret by simp
  with ret ph wp fl have "\<exists>res st'.
        processTurn sampleEndgame \<lparr>gene = Blue, atype = Single\<rparr> (Some 20)
          = Some (Inr (Success res True (Some Player)), st')
        \<and> livingCount st' (enemyTeam st') = 0 \<and> 0 < livingCount st' (playerTeam st')
        \<and> battlePhase st' = Ended \<and> \<not> isProcessingTurn st'"
    by auto
  with endgame_schedulable endgame_turn endgame_alive(3) endgame_alive(4) endgame_living
  show ?thesis by (intro conjI)
qed

section \<open>The order of simultaneous turns\<close>

lemma indexOf_bounds: "-1 \<le> indexOf xs x"
  by (induction xs) (auto simp: Let_def)

lemma indexOf_member:
  assumes "x \<in> set xs"
  shows "0 \<le> indexOf xs x \<and> nat (indexOf xs x) < length xs \<and> xs ! nat (indexOf xs x) = x"
  using assms
proof (induction xs)
  case Nil
  then show ?case by simp
next
  case (Cons y ys)
  show ?case
  proof (cases "y = x")
    case True
    then show ?thesis by simp
  next
    case False
    with Cons.prems have "x \<in> set ys" by simp
    from Cons.IH [OF this] False show ?thesis
      by (simp add: Let_def nat_add_distrib)
  qed
qed

lemma indexOf_inj:
  assumes "x \<in> set xs" and "y \<in> set xs" and "indexOf xs x = indexOf xs y"
  shows "x = y"
  using indexOf_member [OF assms(1)] indexOf_member [OF assms(2)] assms(3) by metis

text \<open>On ready members of marked teams the comparator is the tie-break chain.\<close>

lemma turnCmp_ready:
  assumes "isReady st bars a" and "isReady st bars b"
    and "isPlayer (heap st a) \<noteq> None" and "isPlayer (heap st b) \<noteq> None"
  shows "turnCmp st bars a b < 0 \<longleftrightarrow> turnBefore st bars a b"
    and "turnCmp st bars a b = 0 \<longleftrightarrow>
           barOf st bars a = barOf st bars b \<and> speed (heap st a) = speed (heap st b)
           \<and> isAlly st a = isAlly st b \<and> teamIndex st a = teamIndex st b"
proof -
  from assms(1) obtain x where x: "bars (charKey st a) = Some (Num x)"
    by (auto simp: isReady_def split: option.splits jsnum.splits)
  from assms(2) obtain y where y: "bars (charKey st b) = Some (Num y)"
    by (auto simp: isReady_def split: option.splits jsnum.splits)
  from assms(3,4) have fl: "isPlayer (heap st a) \<noteq> isPlayer (heap st b)
      \<longleftrightarrow> isAlly st a \<noteq> isAlly st b"
    by (auto simp: isAlly_def truthy_def)
  show "turnCmp st bars a b < 0 \<longleftrightarrow> turnBefore st bars a b"
    unfolding turnCmp_def turnBefore_def Let_def barOf_def x y teamIndex_def fl
    by (auto simp: isAlly_def)
  show "turnCmp st bars a b = 0 \<longleftrightarrow>
           barOf st bars a = barOf st bars b \<and> speed (heap st a) = speed (heap st b)
           \<and> isAlly st a = isAlly st b \<and> teamIndex st a = teamIndex st b"
    unfolding turnCmp_def Let_def barOf_def x y teamIndex_def fl
    by (auto simp: isAlly_def)
qed

lemma marked_member:
  assumes "teamsMarked st" and "a \<in> set (playerTeam st @ enemyTeam st)"
  shows "isPlayer (heap st a) \<noteq> None"
    and "isAlly st a \<Longrightarrow> a \<in> set (playerTeam st)"
    and "\<not> isAlly st a \<Longrightarrow> a \<in> set (enemyTeam st)"
  using assms by (auto simp: teamsMarked_def isAlly_def truthy_def)

lemma teamIndex_inj:
  assumes "teamsMarked st"
    and "a \<in> set (playerTeam st @ enemyTeam st)" and "b \<in> set (playerTeam st @ enemyTeam st)"
    and "isAlly st a = isAlly st b" and "teamIndex st a = teamIndex st b"
  shows "a = b"
proof (cases "isAlly st a")
  case True
  with assms(4) have "isAlly st b" by simp
  from marked_member(2) [OF assms(1,2) True] marked_member(2) [OF assms(1,3) this]
    assms(5) True \<open>isAlly st b\<close>
  show ?thesis by (auto simp: teamIndex_def intro: indexOf_inj)
next
  case False
  with assms(4) have "\<not> isAlly st b" by simp
  from marked_member(3) [OF assms(1,2) False] marked_member(3) [OF assms(1,3) this]
    assms(5) False \<open>\<not> isAlly st b\<close>
  show ?thesis by (auto simp: teamIndex_def intro: indexOf_inj)
qed

lemma turnBefore_irrefl: "\<not> turnBefore st bars a a"
  by (simp add: turnBefore_def)

lemma turnBefore_trans:
  assumes "turnBefore st bars a b" and "turnBefore st bars b c"
  shows "turnBefore st bars a c"
  using assms unfolding turnBefore_def by auto

lemma turnBefore_asym: "turnBefore st bars a b \<Longrightarrow> \<not> turnBefore st bars b a"
  using turnBefore_trans turnBefore_irrefl by blast

lemma turnBefore_total:
  assumes "teamsMarked st"
    and "a \<in> set (playerTeam st @ enemyTeam st)" and "b \<in> set (playerTeam st @ enemyTeam st)"
    and "a \<noteq> b"
  shows "turnBefore st bars a b \<or> turnBefore st bars b a"
proof -
  have "isAlly st a = isAlly st b \<Longrightarrow> teamIndex st a \<noteq> teamIndex st b"
    using teamIndex_inj [OF assms(1,2,3)] assms(4) by blast
  then show ?thesis
    unfolding turnBefore_def
    by (cases "isAlly st a"; cases "isAlly st b") force+
qed

text \<open>The insertion sort sorts when the comparator is a total order on the elements.\<close>

lemma insertBy_set: "set (insertBy cmp x xs) = insert x (set xs)"
  by (induction xs) auto

lemma insertBy_sorted:
  assumes le: "\<And>a b. a \<in> S \<Longrightarrow> b \<in> S \<Longrightarrow> (cmp a b \<le> 0 \<longleftrightarrow> R a b \<or> a = b)"
    and tr: "\<And>a b c. R a b \<Longrightarrow> R b c \<Longrightarrow> R a c"
    and tot: "\<And>a b. a \<in> S \<Longrightarrow> b \<in> S \<Longrightarrow> a \<noteq> b \<Longrightarrow> R a b \<or> R b a"
    and "x \<in> S" and "set xs \<subseteq> S" and "sorted_wrt (\<lambda>a b. R a b \<or> a = b) xs"
  shows "sorted_wrt (\<lambda>a b. R a b \<or> a = b) (insertBy cmp x xs)"
  using assms(5,6)
proof (induction xs)
  case Nil
  then show ?case by simp
next
  case (Cons y ys)
  from Cons.prems have y: "y \<in> S" and ys: "set ys \<subseteq> S"
    and yle: "\<forall>z \<in> set ys. R y z \<or> y = z"
    and sys: "sorted_wrt (\<lambda>a b. R a b \<or> a = b) ys"
    by simp_all
  show ?case
  proof (cases "cmp x y \<le> 0")
    case True
    with le [OF assms(4) y] have xy: "R x y \<or> x = y" by simp
    with yle have "\<forall>z \<in> set ys. R x z \<or> x = z" using tr by blast
    with True xy Cons.prems(2) show ?thesis by simp
  next
    case False
    with le [OF assms(4) y] have "\<not> R x y" "x \<noteq> y" by simp_all
    with tot [OF assms(4) y] have "R y x" by blast
    with False yle Cons.IH [OF ys sys] show ?thesis
      by (simp add: insertBy_set)
  qed
qed

lemma sortBy_sorted:
  assumes le: "\<And>a b. a \<in> S \<Longrightarrow> b \<in> S \<Longrightarrow> (cmp a b \<le> 0 \<longleftrightarrow> R a b \<or> a = b)"
    and tr: "\<And>a b c. R a b \<Longrightarrow> R b c \<Longrightarrow> R a c"
    and tot: "\<And>a b. a \<in> S \<Longrightarrow> b \<in> S \<Longrightarrow> a \<noteq> b \<Longrightarrow> R a b \<or> R b a"
    and "set xs \<subseteq> S"
  shows "sorted_wrt (\<lambda>a b. R a b \<or> a = b) (sortBy cmp xs)"
  using assms(4)
proof (induction xs)
  case Nil
  show ?case by (simp add: sortBy_def)
next
  case (Cons x xs)
  then have x: "x \<in> S" and xs: "set xs \<subseteq> S" by simp_all
  have "set (sortBy cmp xs) \<subseteq> S" using xs by (simp add: sortBy_set)
  from insertBy_sorted [of S cmp R, OF le tr tot x this Cons.IH [OF xs]]
  show ?case by (simp add: sortBy_def)
qed

lemma sorted_wrt_strict:
  assumes "sorted_wrt (\<lambda>a b. R a b \<or> a = b) xs" and "distinct xs"
  shows "sorted_wrt R xs"
  using assms by (induction xs) auto

lemma sortBy_distinct: "distinct xs \<Longrightarrow> distinct (sortBy cmp xs)"
  by (metis sortBy_mset mset_eq_imp_distinct_iff)

lemma sorted_three:
  assumes "sorted_wrt R xs" and "distinct xs" and "set xs = {p, e1, e2}"
    and "R p e1" and "R p e2" and "R e1 e2"
    and asym: "\<And>a b. R a b \<Longrightarrow> \<not> R b a"
  shows "xs = [p, e1, e2]"
proof -
  have ne: "p \<noteq> e1" "p \<noteq> e2" "e1 \<noteq> e2"
    using assms(4,5,6) asym by blast+
  then have "card {p, e1, e2} = 3" by simp
  with assms(2,3) have "length xs = 3" by (metis distinct_card)
  then obtain x y z where xs: "xs = [x, y, z]"
    by (metis (no_types, opaque_lifting) length_0_conv length_Suc_conv numeral_3_eq_3)
  from assms(1) have R: "R x y" "R x z" "R y z" by (simp_all add: xs)
  from assms(3) have mem: "x \<in> {p, e1, e2}" "y \<in> {p, e1, e2}" "z \<in> {p, e1, e2}"
    and cov: "p \<in> {x, y, z}" "e1 \<in> {x, y, z}" "e2 \<in> {x, y, z}"
    by (auto simp: xs)
  have "x = p"
    using R mem cov assms(4,5,6) asym by (metis insertE singletonD)
  moreover have "y = e1"
    using R mem cov assms(4,5,6) asym \<open>x = p\<close> by (metis insertE singletonD)
  moreover have "z = e2"
    using R mem cov assms(4,5,6) asym \<open>x = p\<close> \<open>y = e1\<close> ne by (metis insertE singletonD)
  ultimately show ?thesis by (simp add: xs)
qed

lemma simTick_turns:
  "snd (simTick st cs s) =
     snd s @ sortBy (turnCmp st (fold (incBar st) cs (fst s)))
               (filter (isReady st (fold (incBar st) cs (fst s))) cs)"
proof (cases "filter (isReady st (fold (incBar st) cs (fst s))) cs = []")
  case True
  then show ?thesis by (simp add: simTick_def sortBy_def)
next
  case False
  then show ?thesis
    by (simp add: simTick_def Let_def fold_consumeTurn_snd)
qed

text \<open>
  C3. In a pass of the scheduler over distinct members of marked teams, the characters
  that are ready are appended to the turn list in the order of the tie-break chain:
  higher action bar first, then lower speed, then ally before opponent, then the position
  in the team list. On ready characters the comparator is negative exactly for that
  chain and is 0 only for a character and itself, so the chain is a strict total order
  and the appended list is the one sorted arrangement of the ready characters. Hence one
  ally and two opponents with equal bars and equal speeds come out as the ally, then the
  two opponents in team-list order.
\<close>

theorem simultaneous_turn_order:
  assumes "teamsMarked st" and "set cs \<subseteq> set (playerTeam st @ enemyTeam st)"
    and "distinct cs"
  shows "let bars1 = fold (incBar st) cs (fst s);
             ready = filter (isReady st bars1) cs;
             turns = sortBy (turnCmp st bars1) ready
         in snd (simTick st cs s) = snd s @ turns
            \<and> mset turns = mset ready
            \<and> sorted_wrt (turnBefore st bars1) turns
            \<and> (\<forall>a \<in> set ready. \<forall>b \<in> set ready.
                  (turnCmp st bars1 a b < 0 \<longleftrightarrow> turnBefore st bars1 a b)
                  \<and> (turnCmp st bars1 a b = 0 \<longleftrightarrow> a = b)
                  \<and> (a \<noteq> b \<longrightarrow> turnBefore st bars1 a b \<or> turnBefore st bars1 b a))
            \<and> (\<forall>p e1 e2. set ready = {p, e1, e2}
                  \<and> isAlly st p \<and> \<not> isAlly st e1 \<and> \<not> isAlly st e2
                  \<and> teamIndex st e1 < teamIndex st e2
                  \<and> speed (heap st p) = speed (heap st e1)
                  \<and> speed (heap st e1) = speed (heap st e2)
                  \<and> barOf st bars1 p = barOf st bars1 e1
                  \<and> barOf st bars1 e1 = barOf st bars1 e2
                  \<longrightarrow> turns = [p, e1, e2])"
proof -
  define bars1 where "bars1 = fold (incBar st) cs (fst s)"
  define ready where "ready = filter (isReady st bars1) cs"
  define turns where "turns = sortBy (turnCmp st bars1) ready"
  have sub: "set ready \<subseteq> set (playerTeam st @ enemyTeam st)"
    using assms(2) by (auto simp: ready_def)
  have dist: "distinct ready" using assms(3) by (simp add: ready_def)
  have rdy: "\<And>a. a \<in> set ready \<Longrightarrow> isReady st bars1 a" by (simp add: ready_def)
  have fl: "\<And>a. a \<in> set ready \<Longrightarrow> isPlayer (heap st a) \<noteq> None"
    using marked_member(1) [OF assms(1)] sub by blast
  have c1: "snd (simTick st cs s) = snd s @ turns"
    unfolding turns_def ready_def bars1_def by (rule simTick_turns)
  have c2: "mset turns = mset ready" by (simp add: turns_def sortBy_mset)
  have lt: "\<And>a b. a \<in> set ready \<Longrightarrow> b \<in> set ready \<Longrightarrow>
      (turnCmp st bars1 a b < 0 \<longleftrightarrow> turnBefore st bars1 a b)"
    by (rule turnCmp_ready(1)) (simp_all add: rdy fl)
  have eq: "\<And>a b. a \<in> set ready \<Longrightarrow> b \<in> set ready \<Longrightarrow>
      (turnCmp st bars1 a b = 0 \<longleftrightarrow> a = b)"
  proof -
    fix a b assume a: "a \<in> set ready" and b: "b \<in> set ready"
    from turnCmp_ready(2) [OF rdy [OF a] rdy [OF b] fl [OF a] fl [OF b]]
    have z: "turnCmp st bars1 a b = 0 \<longleftrightarrow>
           barOf st bars1 a = barOf st bars1 b \<and> speed (heap st a) = speed (heap st b)
           \<and> isAlly st a = isAlly st b \<and> teamIndex st a = teamIndex st b" .
    show "turnCmp st bars1 a b = 0 \<longleftrightarrow> a = b"
    proof
      assume "turnCmp st bars1 a b = 0"
      with z have "isAlly st a = isAlly st b" "teamIndex st a = teamIndex st b" by simp_all
      with teamIndex_inj [OF assms(1)] a b sub show "a = b" by blast
    next
      assume "a = b"
      with z show "turnCmp st bars1 a b = 0" by simp
    qed
  qed
  have tot: "\<And>a b. a \<in> set ready \<Longrightarrow> b \<in> set ready \<Longrightarrow> a \<noteq> b \<Longrightarrow>
      turnBefore st bars1 a b \<or> turnBefore st bars1 b a"
    using turnBefore_total [OF assms(1)] sub by blast
  have le: "\<And>a b. a \<in> set ready \<Longrightarrow> b \<in> set ready \<Longrightarrow>
      (turnCmp st bars1 a b \<le> 0 \<longleftrightarrow> turnBefore st bars1 a b \<or> a = b)"
  proof -
    fix a b assume ab: "a \<in> set ready" "b \<in> set ready"
    have "turnCmp st bars1 a b \<le> 0 \<longleftrightarrow> turnCmp st bars1 a b < 0 \<or> turnCmp st bars1 a b = 0"
      by (rule le_less)
    then show "turnCmp st bars1 a b \<le> 0 \<longleftrightarrow> turnBefore st bars1 a b \<or> a = b"
      by (simp only: lt [OF ab] eq [OF ab])
  qed
  have "sorted_wrt (\<lambda>a b. turnBefore st bars1 a b \<or> a = b) turns"
    unfolding turns_def
  proof (rule sortBy_sorted [where S = "set ready" and R = "turnBefore st bars1"])
    show "set ready \<subseteq> set ready" by simp
  qed (rule le, assumption, assumption, rule turnBefore_trans, assumption, assumption,
       rule tot, assumption, assumption, assumption)
  moreover have dt: "distinct turns" using dist by (simp add: turns_def sortBy_distinct)
  ultimately have c3: "sorted_wrt (turnBefore st bars1) turns" by (rule sorted_wrt_strict)
  have c4: "\<forall>a \<in> set ready. \<forall>b \<in> set ready.
                  (turnCmp st bars1 a b < 0 \<longleftrightarrow> turnBefore st bars1 a b)
                  \<and> (turnCmp st bars1 a b = 0 \<longleftrightarrow> a = b)
                  \<and> (a \<noteq> b \<longrightarrow> turnBefore st bars1 a b \<or> turnBefore st bars1 b a)"
    using lt eq tot by blast
  have c5: "\<forall>p e1 e2. set ready = {p, e1, e2}
                  \<and> isAlly st p \<and> \<not> isAlly st e1 \<and> \<not> isAlly st e2
                  \<and> teamIndex st e1 < teamIndex st e2
                  \<and> speed (heap st p) = speed (heap st e1)
                  \<and> speed (heap st e1) = speed (heap st e2)
                  \<and> barOf st bars1 p = barOf st bars1 e1
                  \<and> barOf st bars1 e1 = barOf st bars1 e2
                  \<longrightarrow> turns = [p, e1, e2]"
  proof (intro allI impI, elim conjE)
    fix p e1 e2
    assume set: "set ready = {p, e1, e2}"
      and fl: "isAlly st p" "\<not> isAlly st e1" "\<not> isAlly st e2"
      and ix: "teamIndex st e1 < teamIndex st e2"
      and sp: "speed (heap st p) = speed (heap st e1)" "speed (heap st e1) = speed (heap st e2)"
      and br: "barOf st bars1 p = barOf st bars1 e1" "barOf st bars1 e1 = barOf st bars1 e2"
    have R: "turnBefore st bars1 p e1" "turnBefore st bars1 p e2" "turnBefore st bars1 e1 e2"
      using fl ix sp br by (simp_all add: turnBefore_def)
    have "set turns = {p, e1, e2}" using set by (simp add: turns_def sortBy_set)
    from sorted_three [OF c3 dt this R turnBefore_asym]
    show "turns = [p, e1, e2]" by blast
  qed
  show ?thesis
    unfolding Let_def bars1_def [symmetric] ready_def [symmetric] turns_def [symmetric]
    by (intro conjI c1 c2 c3 c4 c5)
qed

lemma sample_speeds:
  "speed (heap sampleBattle 10) = 40" "speed (heap sampleBattle 11) = 100"
  "speed (heap sampleBattle 12) = 120" "speed (heap sampleBattle 20) = 40"
  "speed (heap sampleBattle 21) = 48" "speed (heap sampleBattle 22) = 40"
  by (simp_all add: sampleBattle_def sample_chars)

lemma sample_tied_tick:
  "fold (incBar sampleBattle) [10, 11, 12, 20, 21, 22] sampleTiedBars =
     [''Red-P'' \<mapsto> Num 1000, ''Red-Blue-P'' \<mapsto> Num 100, ''Blue-P'' \<mapsto> Num 120,
      ''Yellow-E'' \<mapsto> Num 1000, ''Yellow-Yellow-E'' \<mapsto> Num 48, ''Yellow-Red-E'' \<mapsto> Num 1000]"
  by (rule ext) (simp add: incBar_def sample_keys sample_speeds sampleTiedBars_def)

lemma sample_tied_ready:
  "filter (isReady sampleBattle (fold (incBar sampleBattle) [10, 11, 12, 20, 21, 22] sampleTiedBars))
     [10, 11, 12, 20, 21, 22] = [10, 20, 22]"
  unfolding sample_tied_tick
  by (simp add: isReady_def sample_keys ACTION_THRESHOLD_def)

lemma sample_allies:
  "isAlly sampleBattle 10" "\<not> isAlly sampleBattle 20" "\<not> isAlly sampleBattle 22"
  "teamIndex sampleBattle 20 = 0" "teamIndex sampleBattle 22 = 2"
  by (simp_all add: isAlly_def teamIndex_def truthy_def sampleBattle_def sample_chars)

text \<open>
  The first twenty turns of the sample battle. In the pass in which Red, Yellow,
  Yellow-Red (speed 40) and Blue (speed 120) reach 1000 together, the three slow ones go
  first, the ally before the two opponents, and these in team order.
\<close>

lemma sample_first_turns:
  "map_option upcomingTurns (createTurnQueue sampleBattle)
     = Some [12, 11, 12, 11, 21, 10, 20, 22, 12, 11, 12, 11, 12, 21, 10, 20, 22, 11, 12, 12]"
  by code_simp

theorem simultaneous_turn_order_witness:
  "teamsMarked sampleBattle
   \<and> set [10, 11, 12, 20, 21, 22] \<subseteq> set (playerTeam sampleBattle @ enemyTeam sampleBattle)
   \<and> distinct [10, 11, 12, 20, 21, 22 :: addr]
   \<and> snd (simTick sampleBattle [10, 11, 12, 20, 21, 22] (sampleTiedBars, [])) = [10, 20, 22]
   \<and> map_option upcomingTurns (createTurnQueue sampleBattle)
       = Some [12, 11, 12, 11, 21, 10, 20, 22, 12, 11, 12, 11, 12, 21, 10, 20, 22, 11, 12, 12]"
proof -
  let ?cs = "[10, 11, 12, 20, 21, 22] :: addr list"
  let ?b1 = "fold (incBar sampleBattle) ?cs sampleTiedBars"
  have sub: "set ?cs \<subseteq> set (playerTeam sampleBattle @ enemyTeam sampleBattle)"
    by (simp add: sampleBattle_def)
  have dist: "distinct ?cs" by simp
  have bars: "barOf sampleBattle ?b1 10 = barOf sampleBattle ?b1 20"
    "barOf sampleBattle ?b1 20 = barOf sampleBattle ?b1 22"
    unfolding sample_tied_tick by (simp_all add: barOf_def sample_keys)
  note T = simultaneous_turn_order [OF sample_marked sub dist, of "(sampleTiedBars, [])",
      unfolded Let_def fst_conv snd_conv append_Nil sample_tied_ready]
  from T have tick: "snd (simTick sampleBattle ?cs (sampleTiedBars, []))
        = sortBy (turnCmp sampleBattle ?b1) [10, 20, 22]"
    by (rule conjunct1)
  have set3: "set [10, 20, 22 :: addr] = {10, 20, 22}" by simp
  have "sortBy (turnCmp sampleBattle ?b1) [10, 20, 22] = [10, 20, 22]"
    by (rule T [THEN conjunct2, THEN conjunct2, THEN conjunct2, THEN conjunct2,
          rule_format, of 10 20 22])
       (simp only: set3 sample_allies sample_speeds bars, simp)
  with tick have "snd (simTick sampleBattle ?cs (sampleTiedBars, [])) = [10, 20, 22]" by simp
  with sample_marked sub dist sample_first_turns show ?thesis by (intro conjI)
qed

section \<open>Consuming the action bar\<close>

lemma incBar_at:
  "incBar st a bars k =
     (if charKey st a = k
      then (case bars k of Some (Num v) \<Rightarrow> Some (Num (v + speed (heap st a))) | x \<Rightarrow> x)
      else bars k)"
  by (simp add: incBar_def split: option.splits jsnum.splits)

lemma fold_incBar_value:
  "fold (incBar st) cs bars k =
     (case bars k of
        None \<Rightarrow> None
      | Some NaN \<Rightarrow> Some NaN
      | Some (Num b) \<Rightarrow>
          Some (Num (b + sum_list (map (\<lambda>a. speed (heap st a))
                              (filter (\<lambda>a. charKey st a = k) cs)))))"
proof (induction cs arbitrary: bars)
  case Nil
  show ?case by (simp split: option.splits jsnum.splits)
next
  case (Cons a cs)
  have "fold (incBar st) (a # cs) bars k = fold (incBar st) cs (incBar st a bars) k"
    by simp
  also have "\<dots> = (case incBar st a bars k of
        None \<Rightarrow> None
      | Some NaN \<Rightarrow> Some NaN
      | Some (Num b) \<Rightarrow>
          Some (Num (b + sum_list (map (\<lambda>a. speed (heap st a))
                              (filter (\<lambda>a. charKey st a = k) cs)))))"
    by (rule Cons.IH)
  also have "\<dots> = (case bars k of
        None \<Rightarrow> None
      | Some NaN \<Rightarrow> Some NaN
      | Some (Num b) \<Rightarrow>
          Some (Num (b + sum_list (map (\<lambda>a. speed (heap st a))
                              (filter (\<lambda>a. charKey st a = k) (a # cs))))))"
    unfolding incBar_at by (simp split: option.splits jsnum.splits)
  finally show ?case .
qed

lemma sum_filter_le:
  assumes "\<forall>a \<in> set cs. 0 \<le> f a"
  shows "sum_list (map f (filter P cs)) \<le> (sum_list (map f cs) :: rat)"
  using assms by (induction cs) (auto intro: add_increasing)

lemma consumeTurn_at:
  "fst (consumeTurn st a s) k =
     (if charKey st a = k
      then (case fst s k of Some (Num v) \<Rightarrow> Some (Num (v - ACTION_THRESHOLD)) | _ \<Rightarrow> Some NaN)
      else fst s k)"
  by (simp add: consumeTurn_def consumeBar_def split: option.splits jsnum.splits)

lemma fold_consumeTurn_value:
  "fst (fold (consumeTurn st) xs s) k =
     (if \<exists>a \<in> set xs. charKey st a = k
      then (case fst s k of
              Some (Num v) \<Rightarrow>
                Some (Num (v - ACTION_THRESHOLD
                                * of_nat (length (filter (\<lambda>a. charKey st a = k) xs))))
            | _ \<Rightarrow> Some NaN)
      else fst s k)"
proof (induction xs arbitrary: s)
  case Nil
  show ?case by simp
next
  case (Cons a xs)
  have "fst (fold (consumeTurn st) (a # xs) s) k
      = fst (fold (consumeTurn st) xs (consumeTurn st a s)) k"
    by simp
  also have "\<dots> = (if \<exists>a \<in> set xs. charKey st a = k
      then (case fst (consumeTurn st a s) k of
              Some (Num v) \<Rightarrow>
                Some (Num (v - ACTION_THRESHOLD
                                * of_nat (length (filter (\<lambda>a. charKey st a = k) xs))))
            | _ \<Rightarrow> Some NaN)
      else fst (consumeTurn st a s) k)"
    by (rule Cons.IH)
  also have "\<dots> = (if \<exists>b \<in> set (a # xs). charKey st b = k
      then (case fst s k of
              Some (Num v) \<Rightarrow>
                Some (Num (v - ACTION_THRESHOLD
                                * of_nat (length (filter (\<lambda>a. charKey st a = k) (a # xs)))))
            | _ \<Rightarrow> Some NaN)
      else fst s k)"
    unfolding consumeTurn_at
    by (auto simp: algebra_simps filter_empty_conv split: option.splits jsnum.splits)
  finally show ?case .
qed

text \<open>
  A pass starts with every bar below the threshold and adds, to each bar, speeds whose
  sum is at most the threshold: no bar reaches twice the threshold.
\<close>

lemma tick_inc_bound:
  assumes "barsBelow bars" and "\<forall>a \<in> set cs. 0 \<le> speed (heap st a)"
    and "sum_list (map (\<lambda>a. speed (heap st a)) cs) \<le> ACTION_THRESHOLD"
    and "fold (incBar st) cs bars k = Some (Num v)"
  shows "v < 2 * ACTION_THRESHOLD"
proof -
  from assms(4) obtain b where b: "bars k = Some (Num b)"
    and v: "v = b + sum_list (map (\<lambda>a. speed (heap st a)) (filter (\<lambda>a. charKey st a = k) cs))"
    unfolding fold_incBar_value by (auto split: option.splits jsnum.splits)
  from assms(1) b have "b < ACTION_THRESHOLD" by (simp add: barsBelow_def)
  moreover have "sum_list (map (\<lambda>a. speed (heap st a)) (filter (\<lambda>a. charKey st a = k) cs))
      \<le> ACTION_THRESHOLD"
    using sum_filter_le [OF assms(2)] assms(3) by (rule order_trans)
  ultimately show ?thesis unfolding v by linarith
qed

lemma consumed_bar_le:
  assumes "bars1 k = Some (Num v0)"
  shows "\<exists>v. fst (fold (consumeTurn st) xs (bars1, t)) k = Some (Num v) \<and> v \<le> v0"
proof -
  have "0 \<le> ACTION_THRESHOLD * of_nat (length (filter (\<lambda>a. charKey st a = k) xs))"
    using ACTION_THRESHOLD_pos by simp
  then show ?thesis
    unfolding fold_consumeTurn_value using assms by simp
qed

lemma tick_consumption_step:
  assumes ready: "\<forall>a \<in> set xs. isReady st bars1 a"
    and bound: "\<forall>k v. bars1 k = Some (Num v) \<longrightarrow> v < 2 * ACTION_THRESHOLD"
    and n: "n < length xs"
  shows "\<exists>v. fst (fold (consumeTurn st) (take n xs) (bars1, t)) (charKey st (xs ! n)) = Some (Num v)
          \<and> fst (fold (consumeTurn st) (take (Suc n) xs) (bars1, t)) (charKey st (xs ! n))
              = Some (Num (v - ACTION_THRESHOLD))
          \<and> v - ACTION_THRESHOLD < 2 * ACTION_THRESHOLD"
proof -
  let ?a = "xs ! n"
  from n ready have "isReady st bars1 ?a" by simp
  then obtain v0 where v0: "bars1 (charKey st ?a) = Some (Num v0)"
    by (auto simp: isReady_def split: option.splits jsnum.splits)
  from consumed_bar_le [where ?bars1.0 = bars1 and k = "charKey st ?a" and ?v0.0 = v0
      and st = st and xs = "take n xs" and t = t] v0
  obtain v where v: "fst (fold (consumeTurn st) (take n xs) (bars1, t)) (charKey st ?a) = Some (Num v)"
    and le: "v \<le> v0" by blast
  have "take (Suc n) xs = take n xs @ [?a]"
    using n by (rule take_Suc_conv_app_nth)
  then have "fst (fold (consumeTurn st) (take (Suc n) xs) (bars1, t)) (charKey st ?a)
      = Some (Num (v - ACTION_THRESHOLD))"
    by (simp add: consumeTurn_at v)
  moreover from bound v0 have "v0 < 2 * ACTION_THRESHOLD" by blast
  with le have "v - ACTION_THRESHOLD < 2 * ACTION_THRESHOLD"
    using ACTION_THRESHOLD_pos by linarith
  ultimately show ?thesis using v by blast
qed

lemma simTick_bars:
  "fst (simTick st cs s) =
     fst (fold (consumeTurn st)
            (sortBy (turnCmp st (fold (incBar st) cs (fst s)))
               (filter (isReady st (fold (incBar st) cs (fst s))) cs))
            (fold (incBar st) cs (fst s), snd s))"
proof (cases "filter (isReady st (fold (incBar st) cs (fst s))) cs = []")
  case True
  then show ?thesis by (simp add: simTick_def sortBy_def)
next
  case False
  then show ?thesis by (simp add: simTick_def Let_def)
qed

lemma tick_preserves_below:
  assumes "barsBelow (fst s)" and "\<forall>a \<in> set cs. 0 \<le> speed (heap st a)"
    and "sum_list (map (\<lambda>a. speed (heap st a)) cs) \<le> ACTION_THRESHOLD"
  shows "barsBelow (fst (simTick st cs s))"
  unfolding barsBelow_def
proof (intro allI impI)
  fix k w
  let ?b1 = "fold (incBar st) cs (fst s)"
  let ?ready = "filter (isReady st ?b1) cs"
  let ?turns = "sortBy (turnCmp st ?b1) ?ready"
  assume "fst (simTick st cs s) k = Some (Num w)"
  then have w: "fst (fold (consumeTurn st) ?turns (?b1, snd s)) k = Some (Num w)"
    by (simp only: simTick_bars)
  show "w < ACTION_THRESHOLD"
  proof (cases "\<exists>a \<in> set ?turns. charKey st a = k")
    case True
    then have "filter (\<lambda>a. charKey st a = k) ?turns \<noteq> []"
      by (simp add: filter_empty_conv)
    then have pos: "1 \<le> length (filter (\<lambda>a. charKey st a = k) ?turns)"
      by (simp add: Suc_le_eq)
    from w True obtain v0 where v0: "?b1 k = Some (Num v0)"
      and wv: "w = v0 - ACTION_THRESHOLD * of_nat (length (filter (\<lambda>a. charKey st a = k) ?turns))"
      unfolding fold_consumeTurn_value by (auto split: option.splits jsnum.splits)
    from assms v0 have "v0 < 2 * ACTION_THRESHOLD" by (rule tick_inc_bound)
    moreover have "ACTION_THRESHOLD * 1
        \<le> ACTION_THRESHOLD * of_nat (length (filter (\<lambda>a. charKey st a = k) ?turns))"
      using pos ACTION_THRESHOLD_pos by (intro mult_left_mono) simp_all
    ultimately show ?thesis unfolding wv by linarith
  next
    case False
    with w have b1: "?b1 k = Some (Num w)"
      unfolding fold_consumeTurn_value by simp
    show ?thesis
    proof (cases "\<exists>a \<in> set cs. charKey st a = k")
      case True
      then obtain a where a: "a \<in> set cs" "charKey st a = k" by blast
      with False have "\<not> isReady st ?b1 a" by (auto simp: sortBy_set)
      with b1 a(2) show ?thesis by (simp add: isReady_def)
    next
      case False
      then have "filter (\<lambda>a. charKey st a = k) cs = []" by (simp add: filter_empty_conv)
      with b1 have "fst s k = Some (Num w)"
        unfolding fold_incBar_value by (auto split: option.splits jsnum.splits)
      with assms(1) show ?thesis by (simp add: barsBelow_def)
    qed
  qed
qed

lemma consumeBar_at:
  "consumeBar bars k k' =
     (if k = k'
      then (case bars k' of Some (Num v) \<Rightarrow> Some (Num (v - ACTION_THRESHOLD)) | _ \<Rightarrow> Some NaN)
      else bars k')"
  by (simp add: consumeBar_def split: option.splits jsnum.splits)

lemma consumeBar_below:
  assumes "barsBelow bars"
  shows "barsBelow (consumeBar bars k)"
  unfolding barsBelow_def
proof (intro allI impI)
  fix k' w assume w: "consumeBar bars k k' = Some (Num w)"
  show "w < ACTION_THRESHOLD"
  proof (cases "k = k'")
    case True
    with w obtain v where v: "bars k' = Some (Num v)" and wv: "w = v - ACTION_THRESHOLD"
      unfolding consumeBar_at by (auto split: option.splits jsnum.splits)
    from assms v have "v < ACTION_THRESHOLD" by (simp add: barsBelow_def)
    then show ?thesis unfolding wv using ACTION_THRESHOLD_pos by linarith
  next
    case False
    with w have "bars k' = Some (Num w)" by (simp add: consumeBar_at)
    with assms show ?thesis by (simp add: barsBelow_def)
  qed
qed

text \<open>
  \<open>nextTurn\<close> in a schedulable battle returns; the action bars it leaves are the old
  ones with the threshold taken once from the bar of the character that acted.
\<close>

lemma nextTurn_returns:
  assumes "schedulable st"
  shows "\<exists>info st'. nextTurn st = Some (info, st')
     \<and> actionBars st' =
          (case getCurrentCharacter st of
             None \<Rightarrow> actionBars st
           | Some c \<Rightarrow> consumeBar (actionBars st) (charKey st c))"
proof (cases "getCurrentCharacter st")
  case None
  then show ?thesis by (simp add: nextTurn_def)
next
  case (Some c)
  define st2 where "st2 = st\<lparr>actionBars := consumeBar (actionBars st) (charKey st c),
      turnHistory := turnHistory st @ [hd (upcomingTurns st)],
      upcomingTurns := tl (upcomingTurns st)\<rparr>"
  have same: "allAlive st2 = allAlive st" "heap st2 = heap st" "charKey st2 = charKey st"
    "actionBars st2 = consumeBar (actionBars st) (charKey st c)"
    by (simp_all add: st2_def allAlive_def alive_def charKey_def)
  have "\<forall>a \<in> set (allAlive st2).
          0 < speed (heap st2 a) \<and> (\<exists>v. actionBars st2 (charKey st2 a) = Some (Num v))"
  proof
    fix a assume "a \<in> set (allAlive st2)"
    then have "a \<in> set (allAlive st)" by (simp only: same)
    then have a: "a \<in> set (playerTeam st @ enemyTeam st)" "alive st a"
      by (auto simp: allAlive_def)
    with assms obtain v where v: "actionBars st (charKey st a) = Some (Num v)"
      and sp: "0 < speed (heap st a)"
      unfolding schedulable_def by blast
    from v have "\<exists>w. consumeBar (actionBars st) (charKey st c) (charKey st a) = Some (Num w)"
      by (simp add: consumeBar_at)
    with sp show "0 < speed (heap st2 a) \<and> (\<exists>v. actionBars st2 (charKey st2 a) = Some (Num v))"
      unfolding same by simp
  qed
  from calculateUpcomingTurns_returns [OF this, of 20]
  obtain ts where ts: "calculateUpcomingTurns st2 20 = Some (st2\<lparr>upcomingTurns := ts\<rparr>)" by blast
  define st3 where "st3 = (if length (upcomingTurns st2) < 20 then st2\<lparr>upcomingTurns := ts\<rparr> else st2)"
  have "nextTurn st =
      (case (case (if length (upcomingTurns st2) < 20
                          then calculateUpcomingTurns st2 20 else Some st2) of
                      None \<Rightarrow> None
                    | Some st3 \<Rightarrow> Some (st3\<lparr>turnQueue := take 6 (upcomingTurns st3)\<rparr>)) of
        None \<Rightarrow> None
      | Some st' \<Rightarrow>
          Some (\<lparr>nextCharacter = getCurrentCharacter st', shownQueue = turnQueue st'\<rparr>, st'))"
    unfolding nextTurn_def Let_def st2_def by (simp add: Some)
  also have "\<dots> = Some (\<lparr>nextCharacter = getCurrentCharacter (st3\<lparr>turnQueue := take 6 (upcomingTurns st3)\<rparr>),
          shownQueue = take 6 (upcomingTurns st3)\<rparr>, st3\<lparr>turnQueue := take 6 (upcomingTurns st3)\<rparr>)"
    by (simp add: ts st3_def)
  finally have "nextTurn st = Some (\<lparr>nextCharacter = getCurrentCharacter (st3\<lparr>turnQueue := take 6 (upcomingTurns st3)\<rparr>),
          shownQueue = take 6 (upcomingTurns st3)\<rparr>, st3\<lparr>turnQueue := take 6 (upcomingTurns st3)\<rparr>)" .
  moreover have "actionBars (st3\<lparr>turnQueue := take 6 (upcomingTurns st3)\<rparr>)
      = consumeBar (actionBars st) (charKey st c)"
    by (simp add: st3_def same)
  ultimately show ?thesis by (simp add: Some)
qed

text \<open>
  C5. A turn takes exactly the threshold from the action bar of the character that acts;
  the bar is not reset. \<open>nextTurn\<close> does so for the current character, and a pass of the
  scheduler does so at each of its consumptions, in the order of the turns it appends.
  When no bar has reached the threshold before (as after \<open>createTurnQueue\<close>, and again
  after every pass and every \<open>nextTurn\<close>) and the speeds of the living sum to at most the
  threshold, the bar is below twice the threshold after each consumption.
\<close>

theorem consumption_subtracts_threshold:
  assumes "schedulable st" and "barsBelow (actionBars st)" and "barsBelow (fst s)"
    and "sum_list (map (\<lambda>a. speed (heap st a)) (allAlive st)) \<le> ACTION_THRESHOLD"
  shows "(\<exists>info st'. nextTurn st = Some (info, st')
           \<and> (\<forall>c v. getCurrentCharacter st = Some c
                 \<and> actionBars st (charKey st c) = Some (Num v) \<longrightarrow>
                 actionBars st' (charKey st c) = Some (Num (v - ACTION_THRESHOLD))
                 \<and> v - ACTION_THRESHOLD < 2 * ACTION_THRESHOLD)
           \<and> barsBelow (actionBars st'))
     \<and> (let bars1 = fold (incBar st) (allAlive st) (fst s);
             turns = sortBy (turnCmp st bars1) (filter (isReady st bars1) (allAlive st))
         in simTick st (allAlive st) s = fold (consumeTurn st) turns (bars1, snd s)
            \<and> (\<forall>n < length turns.
                  \<exists>v. fst (fold (consumeTurn st) (take n turns) (bars1, snd s))
                          (charKey st (turns ! n)) = Some (Num v)
                     \<and> fst (fold (consumeTurn st) (take (Suc n) turns) (bars1, snd s))
                          (charKey st (turns ! n)) = Some (Num (v - ACTION_THRESHOLD))
                     \<and> v - ACTION_THRESHOLD < 2 * ACTION_THRESHOLD)
            \<and> barsBelow (fst (simTick st (allAlive st) s)))"
proof -
  let ?cs = "allAlive st"
  define bars1 where "bars1 = fold (incBar st) ?cs (fst s)"
  define turns where "turns = sortBy (turnCmp st bars1) (filter (isReady st bars1) ?cs)"
  have nonneg: "\<forall>a \<in> set ?cs. 0 \<le> speed (heap st a)"
    using assms(1) unfolding schedulable_def allAlive_def by (auto intro: less_imp_le)
  \<comment> \<open>\<open>nextTurn\<close>\<close>
  from nextTurn_returns [OF assms(1)]
  obtain info st' where nt: "nextTurn st = Some (info, st')"
    and bars': "actionBars st' =
          (case getCurrentCharacter st of
             None \<Rightarrow> actionBars st
           | Some c \<Rightarrow> consumeBar (actionBars st) (charKey st c))"
    by blast
  have n1: "\<forall>c v. getCurrentCharacter st = Some c
                 \<and> actionBars st (charKey st c) = Some (Num v) \<longrightarrow>
                 actionBars st' (charKey st c) = Some (Num (v - ACTION_THRESHOLD))
                 \<and> v - ACTION_THRESHOLD < 2 * ACTION_THRESHOLD"
  proof (intro allI impI, elim conjE)
    fix c v assume c: "getCurrentCharacter st = Some c"
      and v: "actionBars st (charKey st c) = Some (Num v)"
    from assms(2) v have "v < ACTION_THRESHOLD" by (simp add: barsBelow_def)
    then have "v - ACTION_THRESHOLD < 2 * ACTION_THRESHOLD"
      using ACTION_THRESHOLD_pos by linarith
    moreover have "actionBars st' (charKey st c) = Some (Num (v - ACTION_THRESHOLD))"
      by (simp add: bars' c consumeBar_at v)
    ultimately show "actionBars st' (charKey st c) = Some (Num (v - ACTION_THRESHOLD))
                 \<and> v - ACTION_THRESHOLD < 2 * ACTION_THRESHOLD" by simp
  qed
  have n2: "barsBelow (actionBars st')"
    unfolding bars' using assms(2) by (auto split: option.splits intro: consumeBar_below)
  from nt n1 n2 have part1: "\<exists>info st'. nextTurn st = Some (info, st')
           \<and> (\<forall>c v. getCurrentCharacter st = Some c
                 \<and> actionBars st (charKey st c) = Some (Num v) \<longrightarrow>
                 actionBars st' (charKey st c) = Some (Num (v - ACTION_THRESHOLD))
                 \<and> v - ACTION_THRESHOLD < 2 * ACTION_THRESHOLD)
           \<and> barsBelow (actionBars st')"
    by blast
  \<comment> \<open>a pass of the scheduler\<close>
  have t1: "simTick st ?cs s = fold (consumeTurn st) turns (bars1, snd s)"
  proof (rule prod_eqI)
    show "fst (simTick st ?cs s) = fst (fold (consumeTurn st) turns (bars1, snd s))"
      unfolding turns_def bars1_def by (rule simTick_bars)
    show "snd (simTick st ?cs s) = snd (fold (consumeTurn st) turns (bars1, snd s))"
      unfolding turns_def bars1_def by (simp add: simTick_turns fold_consumeTurn_snd)
  qed
  have rdy: "\<forall>a \<in> set turns. isReady st bars1 a"
    by (simp add: turns_def sortBy_set)
  have bound: "\<forall>k v. bars1 k = Some (Num v) \<longrightarrow> v < 2 * ACTION_THRESHOLD"
    unfolding bars1_def using tick_inc_bound [OF assms(3) nonneg assms(4)] by blast
  have t2: "\<forall>n < length turns.
                  \<exists>v. fst (fold (consumeTurn st) (take n turns) (bars1, snd s))
                          (charKey st (turns ! n)) = Some (Num v)
                     \<and> fst (fold (consumeTurn st) (take (Suc n) turns) (bars1, snd s))
                          (charKey st (turns ! n)) = Some (Num (v - ACTION_THRESHOLD))
                     \<and> v - ACTION_THRESHOLD < 2 * ACTION_THRESHOLD"
    using tick_consumption_step [OF rdy bound] by blast
  have t3: "barsBelow (fst (simTick st ?cs s))"
    using assms(3) nonneg assms(4) by (rule tick_preserves_below)
  show ?thesis
    unfolding Let_def bars1_def [symmetric] turns_def [symmetric]
    by (intro conjI part1 t1 t2 t3)
qed

lemma sample_allAlive: "allAlive sampleBattle = [10, 11, 12, 20, 21, 22]"
proof -
  have "playerTeam sampleBattle @ enemyTeam sampleBattle = [10, 11, 12, 20, 21, 22]"
    by (simp add: sampleBattle_def)
  then show ?thesis using sample_alive by (simp add: allAlive_def)
qed

lemma sample_below:
  "barsBelow (actionBars sampleBattle)" "barsBelow sampleTiedBars"
  by (auto simp: barsBelow_def sampleBattle_def sampleTiedBars_def ACTION_THRESHOLD_def
      split: if_splits)

lemma sample_speed_sum:
  "sum_list (map (\<lambda>a. speed (heap sampleBattle a)) (allAlive sampleBattle)) \<le> ACTION_THRESHOLD"
  unfolding sample_allAlive by (simp add: sample_speeds ACTION_THRESHOLD_def)

theorem consumption_subtracts_threshold_witness:
  "schedulable sampleBattle \<and> barsBelow (actionBars sampleBattle)
   \<and> barsBelow (fst (sampleTiedBars, [] :: addr list))
   \<and> sum_list (map (\<lambda>a. speed (heap sampleBattle a)) (allAlive sampleBattle)) \<le> ACTION_THRESHOLD
   \<and> getCurrentCharacter sampleBattle = Some 12
   \<and> actionBars sampleBattle (charKey sampleBattle 12) = Some (Num 0)
   \<and> (\<exists>info st'. nextTurn sampleBattle = Some (info, st')
         \<and> actionBars st' (charKey sampleBattle 12) = Some (Num (0 - ACTION_THRESHOLD))
         \<and> barsBelow (actionBars st'))
   \<and> barsBelow (fst (simTick sampleBattle (allAlive sampleBattle) (sampleTiedBars, [])))"
proof -
  have b2: "barsBelow (fst (sampleTiedBars, [] :: addr list))"
    using sample_below(2) by simp
  have bar: "actionBars sampleBattle (charKey sampleBattle 12) = Some (Num 0)"
    unfolding sample_keys by (simp add: sampleBattle_def)
  note T = consumption_subtracts_threshold [OF sample_schedulable sample_below(1) b2
      sample_speed_sum, unfolded Let_def]
  from T obtain info st' where nt: "nextTurn sampleBattle = Some (info, st')"
    and ex: "\<forall>c v. getCurrentCharacter sampleBattle = Some c
                 \<and> actionBars sampleBattle (charKey sampleBattle c) = Some (Num v) \<longrightarrow>
                 actionBars st' (charKey sampleBattle c) = Some (Num (v - ACTION_THRESHOLD))
                 \<and> v - ACTION_THRESHOLD < 2 * ACTION_THRESHOLD"
    and bl: "barsBelow (actionBars st')"
    by blast
  from ex sample_turn(2) bar
  have "actionBars st' (charKey sampleBattle 12) = Some (Num (0 - ACTION_THRESHOLD))"
    by blast
  with nt bl have p1: "\<exists>info st'. nextTurn sampleBattle = Some (info, st')
         \<and> actionBars st' (charKey sampleBattle 12) = Some (Num (0 - ACTION_THRESHOLD))
         \<and> barsBelow (actionBars st')"
    by blast
  from T have p2: "barsBelow (fst (simTick sampleBattle (allAlive sampleBattle) (sampleTiedBars, [])))"
    by blast
  show ?thesis
    by (intro conjI sample_schedulable sample_below(1) b2 sample_speed_sum sample_turn(2) bar p1 p2)
qed

section \<open>The AI's best move\<close>

lemma bestAmong_step:
  assumes "bestAmong f seen best"
  shows "bestAmong f (seen @ [c])
     (if beats (f c) (snd best)
      then (Some \<lparr>moveAttack = Some (fst c), moveTarget = Some (snd c)\<rparr>, Some (f c))
      else best)"
proof (cases best)
  case (Pair bm bs)
  show ?thesis
  proof (cases bm)
    case None
    with assms Pair have "bs = None" "seen = []"
      by (auto simp: bestAmong_def split: option.splits)
    with None Pair show ?thesis by (simp add: bestAmong_def)
  next
    case (Some m)
    with assms Pair obtain b c0 where bs: "bs = Some b" and c0: "c0 \<in> set seen"
      "m = \<lparr>moveAttack = Some (fst c0), moveTarget = Some (snd c0)\<rparr>" "b = f c0"
      "\<forall>x \<in> set seen. f x \<le> f c0"
      by (auto simp: bestAmong_def split: option.splits)
    show ?thesis
    proof (cases "f c > b")
      case True
      with c0 have "\<forall>x \<in> set (seen @ [c]). f x \<le> f c" by auto
      with True Pair bs show ?thesis by (simp add: bestAmong_def)
    next
      case False
      with c0 have "\<forall>x \<in> set (seen @ [c]). f x \<le> f c0" by auto
      with False Pair bs Some c0 show ?thesis by (auto simp: bestAmong_def)
    qed
  qed
qed

lemma fold_considerSingle:
  assumes "bestAmong f seen best"
    and "\<And>t. f (atk, t) = score (evaluateSingleAttack h attacker atk t ts)"
  shows "bestAmong f (seen @ map (\<lambda>t. (atk, t)) xs)
           (fold (considerSingle h attacker ts atk) xs best)"
  using assms(1)
proof (induction xs arbitrary: seen best)
  case Nil
  then show ?case by simp
next
  case (Cons t xs)
  have "considerSingle h attacker ts atk t best =
      (if beats (f (atk, t)) (snd best)
       then (Some \<lparr>moveAttack = Some (fst (atk, t)), moveTarget = Some (snd (atk, t))\<rparr>,
             Some (f (atk, t)))
       else best)"
    by (simp add: considerSingle_def Let_def assms(2))
  with bestAmong_step [OF Cons.prems, of "(atk, t)"]
  have "bestAmong f (seen @ [(atk, t)]) (considerSingle h attacker ts atk t best)" by simp
  from Cons.IH [OF this] show ?case by simp
qed

lemma considerAttack_best:
  assumes "bestAmong (candidateScore h attacker ts) seen best" and "ts \<noteq> []"
  shows "bestAmong (candidateScore h attacker ts)
           (seen @ (if atype atk = Splash then map (\<lambda>t. (atk, t)) (take 1 ts)
                    else map (\<lambda>t. (atk, t)) ts))
           (considerAttack h attacker ts atk best)"
proof (cases "atype atk = Splash")
  case True
  from assms(2) obtain t0 rest where ts: "ts = t0 # rest" by (cases ts) auto
  have f: "candidateScore h attacker ts (atk, t0)
      = splashScore (evaluateSplashAttack h attacker atk ts)"
    using True by (simp add: candidateScore_def)
  have "considerAttack h attacker ts atk best =
      (if beats (candidateScore h attacker ts (atk, t0)) (snd best)
       then (Some \<lparr>moveAttack = Some (fst (atk, t0)), moveTarget = Some (snd (atk, t0))\<rparr>,
             Some (candidateScore h attacker ts (atk, t0)))
       else best)"
    unfolding f using True by (simp add: considerAttack_def Let_def first_def ts)
  with bestAmong_step [OF assms(1), of "(atk, t0)"] True show ?thesis
    by (simp add: ts)
next
  case False
  then have "\<And>t. candidateScore h attacker ts (atk, t)
      = score (evaluateSingleAttack h attacker atk t ts)"
    by (simp add: candidateScore_def)
  from fold_considerSingle [OF assms(1) this, of ts] False show ?thesis
    by (simp add: considerAttack_def)
qed

lemma fold_considerAttack:
  assumes "bestAmong (candidateScore h attacker ts) seen best" and "ts \<noteq> []"
  shows "bestAmong (candidateScore h attacker ts)
           (seen @ concat (map (\<lambda>atk. if atype atk = Splash then map (\<lambda>t. (atk, t)) (take 1 ts)
                                        else map (\<lambda>t. (atk, t)) ts) atks))
           (fold (considerAttack h attacker ts) atks best)"
  using assms(1)
proof (induction atks arbitrary: seen best)
  case Nil
  then show ?case by simp
next
  case (Cons atk atks)
  from Cons.IH [OF considerAttack_best [OF Cons.prems assms(2), of atk]]
  show ?case by simp
qed

lemma getAttackGenes_first:
  "\<exists>a0 a1. getAttackGenes c = [a0, a1] \<and> atype a0 = Single"
  by (auto simp: getAttackGenes_def split: list.splits)

lemma candidates_nonempty:
  assumes "ts \<noteq> []"
  shows "candidates h attacker ts \<noteq> []"
proof -
  from getAttackGenes_first [of "h attacker"] obtain a0 a1 where
    "getAttackGenes (h attacker) = [a0, a1]" "atype a0 = Single" by blast
  with assms show ?thesis by (simp add: candidates_def)
qed

text \<open>With targets, the search ends on a candidate of maximal score.\<close>

lemma calculateBestMove_max:
  assumes "ts \<noteq> []"
  shows "\<exists>c \<in> set (candidates h attacker ts).
           calculateBestMove h attacker ts = \<lparr>moveAttack = Some (fst c), moveTarget = Some (snd c)\<rparr>
           \<and> (\<forall>x \<in> set (candidates h attacker ts).
                 candidateScore h attacker ts x \<le> candidateScore h attacker ts c)"
proof -
  let ?best = "fold (considerAttack h attacker ts) (getAttackGenes (h attacker)) (None, None)"
  have "bestAmong (candidateScore h attacker ts) [] (None, None)"
    by (simp add: bestAmong_def)
  from fold_considerAttack [OF this assms, of "getAttackGenes (h attacker)"]
  have b: "bestAmong (candidateScore h attacker ts) (candidates h attacker ts) ?best"
    by (simp add: candidates_def)
  obtain bm bs where best: "?best = (bm, bs)" by (cases ?best) auto
  from b candidates_nonempty [OF assms, of h attacker] obtain m c where
    "bm = Some m" and c: "c \<in> set (candidates h attacker ts)"
    "m = \<lparr>moveAttack = Some (fst c), moveTarget = Some (snd c)\<rparr>"
    "\<forall>x \<in> set (candidates h attacker ts).
        candidateScore h attacker ts x \<le> candidateScore h attacker ts c"
    unfolding best bestAmong_def by (auto split: option.splits)
  then have "calculateBestMove h attacker ts = m"
    by (simp add: calculateBestMove_def Let_def best)
  with c show ?thesis by blast
qed

lemma threat_spec: "calculateThreatLevel h t ts = specThreatScore h t ts"
  by (simp add: calculateThreatLevel_def specThreatScore_def Let_def split: rarity.splits)

lemma single_score_spec:
  "score (evaluateSingleAttack h attacker atk t ts) = specSingleScore h attacker (gene atk) t ts"
  by (simp add: evaluateSingleAttack_def specSingleScore_def Let_def threat_spec
      calculateDamage_def mult.commute)

lemma fold_splashStep:
  "fold (splashStep h attacker atk) ts (d, k, b) =
     (d + (\<Sum>t\<leftarrow>ts. attack (h attacker) * getEffectiveness (gene atk) (h t) * (1/2)),
      k + length (filter
            (\<lambda>t. attack (h attacker) * getEffectiveness (gene atk) (h t) * (1/2) \<ge> hp (h t)) ts),
      b + (\<Sum>t\<leftarrow>filter (\<lambda>t. getEffectiveness (gene atk) (h t) \<ge> 5/4) ts.
             50 * getEffectiveness (gene atk) (h t)))"
proof (induction ts arbitrary: d k b)
  case Nil
  show ?case by simp
next
  case (Cons t ts)
  have "fold (splashStep h attacker atk) (t # ts) (d, k, b)
      = fold (splashStep h attacker atk) ts (splashStep h attacker atk t (d, k, b))"
    by simp
  also have "splashStep h attacker atk t (d, k, b) =
      (d + attack (h attacker) * getEffectiveness (gene atk) (h t) * (1/2),
       (if attack (h attacker) * getEffectiveness (gene atk) (h t) * (1/2) \<ge> hp (h t)
        then k + 1 else k),
       (if getEffectiveness (gene atk) (h t) \<ge> 5/4
        then b + 50 * getEffectiveness (gene atk) (h t) else b))"
    by (simp add: splashStep_def Let_def SPLASH_DAMAGE_MULTIPLIER_def)
  finally show ?case by (simp add: Cons.IH)
qed

lemma splash_score_spec:
  "splashScore (evaluateSplashAttack h attacker atk ts) = specSplashScore h attacker (gene atk) ts"
  by (simp add: evaluateSplashAttack_def fold_splashStep specSplashScore_def)

text \<open>
  C9. When the draw is below the smart-move chance (any draw below 1 at Extreme) and a
  target is available, \<open>makeDecision\<close> marks the move smart and returns a candidate whose
  score no candidate exceeds; the candidates are every pair of a single attack and a
  target and every splash attack once, the score of a single attack is the sum the
  specification gives, and the score of a splash attack is the specification's splash
  score.
\<close>

theorem smart_move_is_best:
  assumes "ts \<noteq> []" and "r1 < smartMoveChance d"
  shows "\<exists>atk t.
      wasSmartMove (makeDecision h d attacker ts r1 r2 r3)
      \<and> decisionAttack (makeDecision h d attacker ts r1 r2 r3) = Some atk
      \<and> decisionTarget (makeDecision h d attacker ts r1 r2 r3) = Some t
      \<and> (atk, t) \<in> set (candidates h attacker ts)
      \<and> (\<forall>c \<in> set (candidates h attacker ts).
            candidateScore h attacker ts c \<le> candidateScore h attacker ts (atk, t))
      \<and> (\<forall>a u. atype a \<noteq> Splash \<longrightarrow>
            candidateScore h attacker ts (a, u) = specSingleScore h attacker (gene a) u ts)
      \<and> (\<forall>a u. atype a = Splash \<longrightarrow>
            candidateScore h attacker ts (a, u) = specSplashScore h attacker (gene a) ts)
      \<and> (\<forall>r. r < 1 \<longrightarrow> r < smartMoveChance EXTREME)"
proof -
  from calculateBestMove_max [OF assms(1), of h attacker]
  obtain c where c: "c \<in> set (candidates h attacker ts)"
    "calculateBestMove h attacker ts = \<lparr>moveAttack = Some (fst c), moveTarget = Some (snd c)\<rparr>"
    "\<forall>x \<in> set (candidates h attacker ts).
        candidateScore h attacker ts x \<le> candidateScore h attacker ts c"
    by blast
  have 1: "wasSmartMove (makeDecision h d attacker ts r1 r2 r3)"
    using assms(2) by (simp add: makeDecision_def Let_def)
  have 2: "decisionAttack (makeDecision h d attacker ts r1 r2 r3) = Some (fst c)"
    using assms(2) by (simp add: makeDecision_def Let_def c(2))
  have 3: "decisionTarget (makeDecision h d attacker ts r1 r2 r3) = Some (snd c)"
    using assms(2) by (simp add: makeDecision_def Let_def c(2))
  have 4: "(fst c, snd c) \<in> set (candidates h attacker ts)" using c(1) by simp
  have 5: "\<forall>x \<in> set (candidates h attacker ts).
        candidateScore h attacker ts x \<le> candidateScore h attacker ts (fst c, snd c)"
    using c(3) by simp
  have 6: "\<forall>a u. atype a \<noteq> Splash \<longrightarrow>
            candidateScore h attacker ts (a, u) = specSingleScore h attacker (gene a) u ts"
    by (simp add: candidateScore_def single_score_spec)
  have 7: "\<forall>a u. atype a = Splash \<longrightarrow>
            candidateScore h attacker ts (a, u) = specSplashScore h attacker (gene a) ts"
    by (simp add: candidateScore_def splash_score_spec)
  have 8: "\<forall>r::rat. r < 1 \<longrightarrow> r < smartMoveChance EXTREME" by simp
  show ?thesis
    by (rule exI [of _ "fst c"], rule exI [of _ "snd c"]) (intro conjI 1 2 3 4 5 6 7 8)
qed

text \<open>
  Yellow-Yellow (attack 48) against Red, Red-Blue and Blue: the candidates score 145, 119
  and 397/2 for the single Yellow attack on each, and 257/2 for the splash; the single
  attack on Blue is chosen.
\<close>

lemma sample_scores:
  "candidates sampleHeap 21 [10, 11, 12] =
     [(\<lparr>gene = Yellow, atype = Single\<rparr>, 10), (\<lparr>gene = Yellow, atype = Single\<rparr>, 11),
      (\<lparr>gene = Yellow, atype = Single\<rparr>, 12), (\<lparr>gene = Yellow, atype = Splash\<rparr>, 10)]"
  "map (candidateScore sampleHeap 21 [10, 11, 12]) (candidates sampleHeap 21 [10, 11, 12])
     = [145, 119, 397 / 2, 257 / 2]"
  "specSplashScore sampleHeap 21 Yellow [10, 11, 12] = 257 / 2"
  by code_simp+

lemma sample_decision:
  "makeDecision sampleHeap EXTREME 21 [10, 11, 12] (1/2) 0 0 =
     \<lparr>success = True, decisionAttack = Some \<lparr>gene = Yellow, atype = Single\<rparr>,
      decisionTarget = Some 12, wasSmartMove = True, decisionDifficulty = EXTREME\<rparr>"
  by code_simp

text \<open>
  Red-Red (attack 104) against Orange, Orange-Yellow and Orange-Green at 10 hp each: the
  single Red attack scores 903, 4373/5 and 4399/5, the splash 1059 (234 of damage, 600
  for three opponents defeated, 225 for the effectiveness); the splash is chosen.
\<close>

lemma splash_sample_scores:
  "candidates sampleSplashHeap 30 [31, 32, 33] =
     [(\<lparr>gene = Red, atype = Single\<rparr>, 31), (\<lparr>gene = Red, atype = Single\<rparr>, 32),
      (\<lparr>gene = Red, atype = Single\<rparr>, 33), (\<lparr>gene = Red, atype = Splash\<rparr>, 31)]"
  "map (candidateScore sampleSplashHeap 30 [31, 32, 33])
       (candidates sampleSplashHeap 30 [31, 32, 33])
     = [903, 4373 / 5, 4399 / 5, 1059]"
  "specSplashScore sampleSplashHeap 30 Red [31, 32, 33] = 1059"
  by code_simp+

lemma splash_sample_decision:
  "makeDecision sampleSplashHeap EXTREME 30 [31, 32, 33] (1/2) 0 0 =
     \<lparr>success = True, decisionAttack = Some \<lparr>gene = Red, atype = Splash\<rparr>,
      decisionTarget = Some 31, wasSmartMove = True, decisionDifficulty = EXTREME\<rparr>"
  by code_simp

theorem smart_move_is_best_witness:
  "[10, 11, 12] \<noteq> ([] :: addr list) \<and> (1/2 :: rat) < smartMoveChance EXTREME
   \<and> decisionAttack (makeDecision sampleHeap EXTREME 21 [10, 11, 12] (1/2) 0 0)
       = Some \<lparr>gene = Yellow, atype = Single\<rparr>
   \<and> decisionTarget (makeDecision sampleHeap EXTREME 21 [10, 11, 12] (1/2) 0 0) = Some 12
   \<and> map (candidateScore sampleHeap 21 [10, 11, 12]) (candidates sampleHeap 21 [10, 11, 12])
       = [145, 119, 397 / 2, 257 / 2]
   \<and> decisionAttack (makeDecision sampleSplashHeap EXTREME 30 [31, 32, 33] (1/2) 0 0)
       = Some \<lparr>gene = Red, atype = Splash\<rparr>
   \<and> map (candidateScore sampleSplashHeap 30 [31, 32, 33])
          (candidates sampleSplashHeap 30 [31, 32, 33])
       = [903, 4373 / 5, 4399 / 5, 1059]
   \<and> (\<exists>atk t.
      wasSmartMove (makeDecision sampleHeap EXTREME 21 [10, 11, 12] (1/2) 0 0)
      \<and> decisionAttack (makeDecision sampleHeap EXTREME 21 [10, 11, 12] (1/2) 0 0) = Some atk
      \<and> decisionTarget (makeDecision sampleHeap EXTREME 21 [10, 11, 12] (1/2) 0 0) = Some t
      \<and> (atk, t) \<in> set (candidates sampleHeap 21 [10, 11, 12])
      \<and> (\<forall>c \<in> set (candidates sampleHeap 21 [10, 11, 12]).
            candidateScore sampleHeap 21 [10, 11, 12] c
              \<le> candidateScore sampleHeap 21 [10, 11, 12] (atk, t))
      \<and> candidateScore sampleHeap 21 [10, 11, 12] (\<lparr>gene = Yellow, atype = Splash\<rparr>, 10)
          = specSplashScore sampleHeap 21 Yellow [10, 11, 12])"
proof -
  have a: "[10, 11, 12] \<noteq> ([] :: addr list)" by simp
  have b: "(1/2 :: rat) < smartMoveChance EXTREME" by simp
  have c: "decisionAttack (makeDecision sampleHeap EXTREME 21 [10, 11, 12] (1/2) 0 0)
       = Some \<lparr>gene = Yellow, atype = Single\<rparr>"
    "decisionTarget (makeDecision sampleHeap EXTREME 21 [10, 11, 12] (1/2) 0 0) = Some 12"
    unfolding sample_decision by simp_all
  have d: "decisionAttack (makeDecision sampleSplashHeap EXTREME 30 [31, 32, 33] (1/2) 0 0)
       = Some \<lparr>gene = Red, atype = Splash\<rparr>"
    unfolding splash_sample_decision by simp
  from smart_move_is_best [OF a b, of sampleHeap 21 0 0]
  obtain atk t where at:
      "wasSmartMove (makeDecision sampleHeap EXTREME 21 [10, 11, 12] (1/2) 0 0)"
      "decisionAttack (makeDecision sampleHeap EXTREME 21 [10, 11, 12] (1/2) 0 0) = Some atk"
      "decisionTarget (makeDecision sampleHeap EXTREME 21 [10, 11, 12] (1/2) 0 0) = Some t"
      "(atk, t) \<in> set (candidates sampleHeap 21 [10, 11, 12])"
      "\<forall>c \<in> set (candidates sampleHeap 21 [10, 11, 12]).
            candidateScore sampleHeap 21 [10, 11, 12] c
              \<le> candidateScore sampleHeap 21 [10, 11, 12] (atk, t)"
      "\<forall>a u. atype a = Splash \<longrightarrow>
            candidateScore sampleHeap 21 [10, 11, 12] (a, u)
              = specSplashScore sampleHeap 21 (gene a) [10, 11, 12]"
    by blast
  from at(6) have sp:
    "candidateScore sampleHeap 21 [10, 11, 12] (\<lparr>gene = Yellow, atype = Splash\<rparr>, 10)
          = specSplashScore sampleHeap 21 Yellow [10, 11, 12]"
    by simp
  have "\<exists>atk t.
      wasSmartMove (makeDecision sampleHeap EXTREME 21 [10, 11, 12] (1/2) 0 0)
      \<and> decisionAttack (makeDecision sampleHeap EXTREME 21 [10, 11, 12] (1/2) 0 0) = Some atk
      \<and> decisionTarget (makeDecision sampleHeap EXTREME 21 [10, 11, 12] (1/2) 0 0) = Some t
      \<and> (atk, t) \<in> set (candidates sampleHeap 21 [10, 11, 12])
      \<and> (\<forall>c \<in> set (candidates sampleHeap 21 [10, 11, 12]).
            candidateScore sampleHeap 21 [10, 11, 12] c
              \<le> candidateScore sampleHeap 21 [10, 11, 12] (atk, t))
      \<and> candidateScore sampleHeap 21 [10, 11, 12] (\<lparr>gene = Yellow, atype = Splash\<rparr>, 10)
          = specSplashScore sampleHeap 21 Yellow [10, 11, 12]"
    by (rule exI [of _ atk], rule exI [of _ t]) (intro conjI at(1-5) sp)
  with a b c d sample_scores(2) splash_sample_scores(2) show ?thesis by (intro conjI)
qed

section \<open>The random choice\<close>

lemma quotient_pos:
  assumes "0 < x" and "quotient_of x = (p, q)"
  shows "0 < p" "0 < q" "x = of_int p / of_int q"
proof -
  show q: "0 < q" using assms(2) by (rule quotient_of_denom_pos)
  show x: "x = of_int p / of_int q" using assms(2) by (rule quotient_of_div)
  from assms(1) x q show "0 < p" by (simp add: zero_less_divide_iff)
qed

lemma two_powi_bitlen:
  assumes "0 < (p::int)"
  shows "(2::rat) powi (bitlen p - 1) \<le> of_int p" "of_int p < (2::rat) powi (bitlen p)"
proof -
  from bitlen_bounds [OF assms] have b: "2 ^ nat (bitlen p - 1) \<le> p" "p < 2 ^ nat (bitlen p)"
    by simp_all
  have pos: "1 \<le> bitlen p" using assms bitlen_eq_zero_iff [of p] bitlen_nonneg [of p] by linarith
  have "(2::rat) powi (bitlen p - 1) = 2 ^ nat (bitlen p - 1)"
    using pos by (simp add: power_int_def)
  also have "\<dots> = of_int (2 ^ nat (bitlen p - 1))" by simp
  also have "\<dots> \<le> of_int p" using b(1) by (simp only: of_int_le_iff)
  finally show "(2::rat) powi (bitlen p - 1) \<le> of_int p" .
  have "(of_int p :: rat) < of_int (2 ^ nat (bitlen p))" using b(2) by (simp only: of_int_less_iff)
  also have "\<dots> = 2 powi (bitlen p)" using pos by (simp add: power_int_def)
  finally show "of_int p < (2::rat) powi (bitlen p)" .
qed

text \<open>\<open>floorLog2\<close> is the exponent of the binade of a positive number.\<close>

lemma floorLog2_bounds:
  assumes "0 < x"
  shows "2 powi (floorLog2 x) \<le> x" and "x < 2 powi (floorLog2 x + 1)"
proof -
  obtain p q where pq: "quotient_of x = (p, q)" by (cases "quotient_of x") auto
  from quotient_pos [OF assms pq] have p: "0 < p" and q: "0 < q"
    and x: "x = of_int p / of_int q" by simp_all
  define e where "e = bitlen p - bitlen q"
  have fl: "floorLog2 x = (if 2 powi e \<le> x then e else e - 1)"
    by (simp add: floorLog2_def pq e_def Let_def)
  note bp = two_powi_bitlen [OF p] and bq = two_powi_bitlen [OF q]
  have qpos: "(0::rat) < of_int q" using q by simp
  have low: "2 powi (e - 1) \<le> x"
  proof -
    have "(2::rat) powi (e - 1) = 2 powi (bitlen p - 1) / 2 powi (bitlen q)"
      by (simp add: e_def power_int_diff)
    also have "\<dots> \<le> of_int p / 2 powi (bitlen q)"
      using bp(1) by (simp add: divide_right_mono)
    also have "\<dots> \<le> of_int p / of_int q"
      using bq(2) p qpos by (intro divide_left_mono) (simp_all add: mult_pos_pos)
    finally show ?thesis by (simp add: x)
  qed
  have high: "x < 2 powi (e + 1)"
  proof -
    have "x < 2 powi (bitlen p) / of_int q"
      unfolding x using bp(2) qpos by (simp add: divide_strict_right_mono)
    also have "\<dots> \<le> 2 powi (bitlen p) / 2 powi (bitlen q - 1)"
      using bq(1) qpos by (intro divide_left_mono) (simp_all add: mult_pos_pos)
    also have "\<dots> = 2 powi (bitlen p - (bitlen q - 1))"
      by (subst power_int_diff) simp_all
    also have "bitlen p - (bitlen q - 1) = e + 1" by (simp add: e_def)
    finally show ?thesis .
  qed
  show "2 powi (floorLog2 x) \<le> x" using low by (simp add: fl)
  show "x < 2 powi (floorLog2 x + 1)" using high by (auto simp: fl not_le)
qed

lemma roundHalfEven_le: "roundHalfEven x \<le> \<lfloor>x + 1/2\<rfloor>"
proof -
  have "\<lfloor>x\<rfloor> \<le> \<lfloor>x + 1/2\<rfloor>" by (rule floor_mono) simp
  moreover have "x - of_int \<lfloor>x\<rfloor> \<ge> 1/2 \<Longrightarrow> \<lfloor>x\<rfloor> + 1 \<le> \<lfloor>x + 1/2\<rfloor>"
    by (simp add: le_floor_iff)
  ultimately show ?thesis
    by (auto simp: roundHalfEven_def Let_def not_less)
qed

lemma roundHalfEven_ge: "\<lfloor>x\<rfloor> \<le> roundHalfEven x"
  by (simp add: roundHalfEven_def Let_def)

lemma roundHalfEven_less:
  assumes "x < of_int N - 1/2"
  shows "roundHalfEven x < N"
proof -
  from assms have "x + 1/2 < of_int N" by simp
  then have "\<lfloor>x + 1/2\<rfloor> < N" by (simp add: floor_less_iff)
  with roundHalfEven_le [of x] show ?thesis by simp
qed

text \<open>
  The rounded product of a number from 0 to \<open>1 - 1 / 2 ^ 53\<close> with a length \<open>n\<close> stays
  below \<open>n\<close>.
\<close>

lemma draw_below:
  assumes r: "0 \<le> r" "r \<le> 1 - 1 / 2 ^ 53" and n: "0 < n" "n < 2 ^ 53"
  shows "0 \<le> roundToDouble (r * of_nat n)" and "roundToDouble (r * of_nat n) < of_nat n"
proof -
  define y where "y = r * of_nat n"
  have y0: "0 \<le> y" using r(1) by (simp add: y_def)
  have npos: "(0::rat) < of_nat n" using n(1) by simp
  have yn: "y \<le> of_nat n - of_nat n / 2 ^ 53"
  proof -
    have "y \<le> (1 - 1 / 2 ^ 53) * of_nat n"
      unfolding y_def using r(2) npos by (intro mult_right_mono) simp_all
    then show ?thesis by (simp add: algebra_simps)
  qed
  have ylt: "y < of_nat n"
  proof -
    have "(0::rat) < of_nat n / 2 ^ 53" using npos by simp
    with yn show ?thesis by linarith
  qed
  show "0 \<le> roundToDouble (r * of_nat n)" and "roundToDouble (r * of_nat n) < of_nat n"
  proof (atomize (full), cases "y = 0")
    case True
    then show "0 \<le> roundToDouble (r * of_nat n) \<and> roundToDouble (r * of_nat n) < of_nat n"
      using npos by (simp add: roundToDouble_def y_def [symmetric])
  next
    case False
    with y0 have ypos: "0 < y" by simp
    define e where "e = max (floorLog2 y) (- 1022)"
    define u where "u = (2::rat) powi (e - 52)"
    define K where "K = roundHalfEven (y / u)"
    have upos: "0 < u" by (simp add: u_def)
    have rd: "roundToDouble y = of_int K * u"
      using ypos by (simp add: roundToDouble_def K_def u_def e_def ulp_def)
    have n53: "(of_nat n :: rat) < 2 powi 53"
    proof -
      have "(of_nat n :: rat) < of_nat (2 ^ 53)" using n(2) by (simp only: of_nat_less_iff)
      then show ?thesis by simp
    qed
    have "(2::rat) powi (floorLog2 y) < 2 powi 53"
      using floorLog2_bounds(1) [OF ypos] ylt n53 by linarith
    then have "floorLog2 y < 53" by (rule power_int_le_imp_less_exp [rotated]) simp_all
    then have e52: "e \<le> 52" by (simp add: e_def)
    have en: "2 powi e < (of_nat n :: rat)"
    proof (cases "floorLog2 y \<ge> - 1022")
      case True
      then have "e = floorLog2 y" by (simp add: e_def)
      with floorLog2_bounds(1) [OF ypos] ylt show ?thesis by simp
    next
      case False
      then have "e = - 1022" by (simp add: e_def)
      moreover have "(2::rat) powi (- 1022) < 2 powi 0"
        by (rule power_int_strict_increasing) simp_all
      moreover have "(1::rat) \<le> of_nat n" using n(1) by simp
      ultimately show ?thesis by simp
    qed
    define N where "N = int n * 2 ^ nat (52 - e)"
    have Nu: "of_int N * u = of_nat n"
    proof -
      have "(2::rat) ^ nat (52 - e) = 2 powi (52 - e)" using e52 by (simp add: power_int_def)
      then have "of_int N * u = of_nat n * (2 powi (52 - e) * 2 powi (e - 52))"
        by (simp add: N_def u_def)
      also have "(2::rat) powi (52 - e) * 2 powi (e - 52) = 2 powi ((52 - e) + (e - 52))"
        by (subst power_int_add) simp_all
      finally show ?thesis by simp
    qed
    have half: "1 / 2 < of_nat n / 2 ^ 53 / u"
    proof -
      have "u * 2 ^ 53 = (2::rat) powi (e - 52) * 2 powi 53" by (simp add: u_def)
      also have "\<dots> = 2 powi ((e - 52) + 53)" by (subst power_int_add) simp_all
      also have "\<dots> = 2 * 2 powi e" by (simp add: power_int_add)
      finally have "u * 2 ^ 53 = 2 * 2 powi e" .
      with en have "u * 2 ^ 53 < 2 * of_nat n" by simp
      then have "u * 2 ^ 53 / (2 * u * 2 ^ 53) < 2 * of_nat n / (2 * u * 2 ^ 53)"
        using upos by (intro divide_strict_right_mono) simp_all
      then show ?thesis using upos by (simp add: field_simps)
    qed
    have "y / u \<le> (of_nat n - of_nat n / 2 ^ 53) / u"
      by (rule divide_right_mono [OF yn]) (use upos in simp)
    also have "\<dots> = of_int N - of_nat n / 2 ^ 53 / u"
      using upos by (simp add: Nu [symmetric] diff_divide_distrib)
    also have "\<dots> < of_int N - 1 / 2" using half by simp
    finally have "K < N" unfolding K_def by (rule roundHalfEven_less)
    then have "of_int K * u < of_int N * u" using upos by simp
    then have below: "roundToDouble y < of_nat n" by (simp add: rd Nu)
    have "0 \<le> y / u" using y0 upos by simp
    then have "0 \<le> \<lfloor>y / u\<rfloor>" by (simp only: zero_le_floor)
    with roundHalfEven_ge [of "y / u"] have "0 \<le> K"
      unfolding K_def by (rule order_trans [rotated])
    then have "0 \<le> roundToDouble y" using upos by (simp add: rd)
    with below show "0 \<le> roundToDouble (r * of_nat n) \<and> roundToDouble (r * of_nat n) < of_nat n"
      by (simp add: y_def)
  qed
qed

text \<open>The largest double below 1 is \<open>1 - 1 / 2 ^ 53\<close>.\<close>

lemma mathRandom_le:
  assumes "mathRandom r"
  shows "0 \<le> r" and "r \<le> 1 - 1 / 2 ^ 53"
proof -
  from assms have r: "0 \<le> r" "r < 1" "roundToDouble r = r" by (simp_all add: mathRandom_def)
  show "0 \<le> r" by fact
  show "r \<le> 1 - 1 / 2 ^ 53"
  proof (cases "r \<le> 1/2")
    case True
    have "(1/2 :: rat) \<le> 1 - 1 / 2 ^ 53" by simp
    with True show ?thesis by (rule order_trans)
  next
    case False
    then have half: "1/2 < r" by simp
    then have rpos: "0 < r" by simp
    note fb = floorLog2_bounds [OF rpos]
    have "(2::rat) powi (floorLog2 r) < 2 powi 0" using fb(1) r(2) by simp
    then have up: "floorLog2 r < 0" by (rule power_int_le_imp_less_exp [rotated]) simp_all
    have "(2::rat) powi (- 1) < 2 powi (floorLog2 r + 1)"
    proof -
      have "(2::rat) powi (- 1) = 1/2" by (simp add: power_int_def)
      with half fb(2) show ?thesis by simp
    qed
    moreover have "0 \<le> floorLog2 r + 1 \<or> floorLog2 r + 1 < 0" by linarith
    ultimately have "- 1 < floorLog2 r + 1"
    proof -
      assume lt: "(2::rat) powi (- 1) < 2 powi (floorLog2 r + 1)"
      show ?thesis
      proof (rule ccontr)
        assume "\<not> - 1 < floorLog2 r + 1"
        then have "floorLog2 r + 1 \<le> - 1" by simp
        then have "(2::rat) powi (floorLog2 r + 1) \<le> 2 powi (- 1)"
          by (rule power_int_increasing) simp
        with lt show False by simp
      qed
    qed
    with up have e: "floorLog2 r = - 1" by simp
    define K where "K = roundHalfEven (r / 2 powi (- 53))"
    have u: "ulp r = 2 powi (- 53)" by (simp add: ulp_def e)
    have rK: "r = of_int K * 2 powi (- 53)"
      using r(3) rpos by (simp add: roundToDouble_def u K_def)
    have p53: "(2::rat) powi (- 53) = 1 / 2 ^ 53" by (simp add: power_int_def field_simps)
    have "of_int K * (1 / 2 ^ 53) < (1::rat)" using r(2) rK by (simp only: p53)
    then have "(of_int K :: rat) < 2 ^ 53" by (simp add: field_simps)
    then have "(of_int K :: rat) < of_int (2 ^ 53)" by simp
    then have "K < 2 ^ 53" by (simp only: of_int_less_iff)
    then have "K \<le> 2 ^ 53 - 1" by simp
    then have "(of_int K :: rat) \<le> of_int (2 ^ 53 - 1)" by (simp only: of_int_le_iff)
    then have "(of_int K :: rat) * (1 / 2 ^ 53) \<le> of_int (2 ^ 53 - 1) * (1 / 2 ^ 53)"
      by (rule mult_right_mono) simp
    also have "\<dots> = 1 - 1 / 2 ^ 53" by simp
    finally show ?thesis by (simp only: rK p53)
  qed
qed

text \<open>
  A draw of \<open>Math.random()\<close> picks an element of every non-empty array (whose length is
  below \<open>2 ^ 32\<close> in JavaScript).
\<close>

lemma pick_in_range:
  assumes "mathRandom r" and "xs \<noteq> []" "length xs < 2 ^ 32"
  shows "\<exists>k < length xs. pick r xs = Some (xs ! k)"
proof -
  from assms(2) have n: "0 < length xs" by simp
  have "(2::nat) ^ 32 \<le> 2 ^ 53" by simp
  with assms(3) have l: "length xs < 2 ^ 53" by (rule less_le_trans)
  note d = draw_below [OF mathRandom_le [OF assms(1)] n l]
  define i where "i = \<lfloor>roundToDouble (r * of_nat (length xs))\<rfloor>"
  from d(1) have i0: "0 \<le> i" by (simp add: i_def)
  from d(2) have "i < int (length xs)" by (simp add: i_def floor_less_iff)
  with i0 have "nat i < length xs" by simp
  moreover from this i0 have "pick r xs = Some (xs ! nat i)"
    by (simp add: pick_def i_def [symmetric] Let_def)
  ultimately show ?thesis by blast
qed

lemma pick_empty: "pick r [] = None"
  by (simp add: pick_def Let_def)

lemma pick_zero: "pick 0 (x # xs) = Some x"
  by (simp add: pick_def roundToDouble_def)

lemma mathRandom_zero: "mathRandom 0"
  by (simp add: mathRandom_def roundToDouble_def)

text \<open>
  0.6666666666666666 is \<open>6004799503160661 / 2 ^ 53\<close>; its product with 3 lies halfway
  between two doubles and is rounded up to 2, so the third element is picked.
\<close>

lemma pick_rounded_product:
  "mathRandom (6004799503160661 / 2 ^ 53)"
  "pick (6004799503160661 / 2 ^ 53) [10, 11, 12 :: nat] = Some 12"
  "pick (1 - 1 / 2 ^ 53) [10, 11, 12 :: nat] = Some 12"
  by code_simp+

section \<open>Battle setup and the size of the roster\<close>

lemma table_all_positive: "list_all (\<lambda>(i, h, a, s). 0 < h \<and> 0 < s) CHARACTER_STATS"
  by (simp add: CHARACTER_STATS_def)

lemma getStatDistribution_positive:
  assumes "getStatDistribution i = (h, a, s)"
  shows "0 < h" and "0 < s"
proof -
  have "0 < h \<and> 0 < s"
  proof (cases "map_of CHARACTER_STATS i")
    case None
    with assms show ?thesis by (simp add: getStatDistribution_def)
  next
    case (Some x)
    with assms have "(i, h, a, s) \<in> set CHARACTER_STATS"
      by (auto simp: getStatDistribution_def dest: map_of_SomeD)
    with table_all_positive show ?thesis unfolding list_all_iff by fast
  qed
  then show "0 < h" and "0 < s" by simp_all
qed

text \<open>A clone that has been reset for battle is alive and has a positive speed.\<close>

lemma clone_positive:
  "0 < speed (clone c)" "0 < maxHp (clone c)"
proof -
  obtain h a s where st: "getStatDistribution (cid c) = (h, a, s)"
    by (cases "getStatDistribution (cid c)") auto
  from getStatDistribution_positive [OF st]
  show "0 < speed (clone c)" "0 < maxHp (clone c)"
    by (simp_all add: clone_def GameCharacter_def st)
qed

text \<open>
  Cloning a roster that consists of objects of the store: the members of the new team are
  the next free addresses, each holds the clone of its roster member, reset and marked as
  the player's, and nothing else changes.
\<close>

lemma fold_clonePlayer:
  assumes "\<forall>a \<in> set xs. a < nextFree st"
  shows "\<exists>h. fold clonePlayer xs (team, st)
            = (team @ [nextFree st ..< nextFree st + length xs],
               st\<lparr>heap := h, nextFree := nextFree st + length xs\<rparr>)
          \<and> (\<forall>a < nextFree st. h a = heap st a)
          \<and> (\<forall>k < length xs. h (nextFree st + k)
                = (resetForBattle (clone (heap st (xs ! k))))\<lparr>isPlayer := Some True\<rparr>)"
  using assms
proof (induction xs arbitrary: team st)
  case Nil
  show ?case by (rule exI [where x = "heap st"]) simp
next
  case (Cons a xs)
  define c where "c = (resetForBattle (clone (heap st a)))\<lparr>isPlayer := Some True\<rparr>"
  define st1 where "st1 = st\<lparr>heap := (heap st)(nextFree st := c), nextFree := Suc (nextFree st)\<rparr>"
  have step: "clonePlayer a (team, st) = (team @ [nextFree st], st1)"
    by (simp add: clonePlayer_def alloc_def Let_def c_def st1_def)
  have nf1: "nextFree st1 = Suc (nextFree st)" and h1: "heap st1 = (heap st)(nextFree st := c)"
    by (simp_all add: st1_def)
  from Cons.prems have "\<forall>x \<in> set xs. x < nextFree st1" by (auto simp: nf1)
  from Cons.IH [OF this, of "team @ [nextFree st]"] obtain h where
    f: "fold clonePlayer xs (team @ [nextFree st], st1)
          = ((team @ [nextFree st]) @ [nextFree st1 ..< nextFree st1 + length xs],
             st1\<lparr>heap := h, nextFree := nextFree st1 + length xs\<rparr>)"
    and old: "\<forall>x < nextFree st1. h x = heap st1 x"
    and new: "\<forall>k < length xs. h (nextFree st1 + k)
                = (resetForBattle (clone (heap st1 (xs ! k))))\<lparr>isPlayer := Some True\<rparr>"
    by blast
  have team: "(team @ [nextFree st]) @ [nextFree st1 ..< nextFree st1 + length xs]
      = team @ [nextFree st ..< nextFree st + length (a # xs)]"
  proof -
    have "[nextFree st ..< nextFree st + Suc (length xs)]
        = nextFree st # [Suc (nextFree st) ..< nextFree st + Suc (length xs)]"
      by (rule upt_conv_Cons) simp
    then show ?thesis by (simp add: nf1)
  qed
  have st: "st1\<lparr>heap := h, nextFree := nextFree st1 + length xs\<rparr>
      = st\<lparr>heap := h, nextFree := nextFree st + length (a # xs)\<rparr>"
    by (simp add: st1_def)
  have 1: "fold clonePlayer (a # xs) (team, st)
      = (team @ [nextFree st ..< nextFree st + length (a # xs)],
         st\<lparr>heap := h, nextFree := nextFree st + length (a # xs)\<rparr>)"
    by (simp only: fold_simps step f team st)
  have 2: "\<forall>x < nextFree st. h x = heap st x"
    using old by (simp add: nf1 h1)
  have 3: "\<forall>k < length (a # xs). h (nextFree st + k)
      = (resetForBattle (clone (heap st ((a # xs) ! k))))\<lparr>isPlayer := Some True\<rparr>"
  proof (intro allI impI)
    fix k assume k: "k < length (a # xs)"
    show "h (nextFree st + k)
      = (resetForBattle (clone (heap st ((a # xs) ! k))))\<lparr>isPlayer := Some True\<rparr>"
    proof (cases k)
      case 0
      with old show ?thesis by (simp add: nf1 h1 c_def)
    next
      case (Suc j)
      with k have j: "j < length xs" by simp
      then have "xs ! j \<in> set xs" by simp
      with Cons.prems have "xs ! j < nextFree st" by simp
      then have "heap st1 (xs ! j) = heap st (xs ! j)" by (simp add: h1)
      with new j Suc show ?thesis by (simp add: nf1)
    qed
  qed
  from 1 2 3 show ?case by blast
qed

text \<open>
  A new enemy is put at the next free address and appended to the enemy team; the teams
  stay well built, the player team and the objects of the store stay as they were.
\<close>

lemma enemy_step:
  assumes "teamsBuilt st" and "0 < speed c"
  defines "st1 \<equiv> (snd (alloc st c))\<lparr>enemyTeam := enemyTeam (snd (alloc st c)) @ [fst (alloc st c)]\<rparr>"
  shows "teamsBuilt st1" and "length (enemyTeam st1) = Suc (length (enemyTeam st))"
    and "playerTeam st1 = playerTeam st" and "nextFree st1 = Suc (nextFree st)"
    and "\<forall>a < nextFree st. heap st1 a = heap st a"
proof -
  have eq: "st1 = st\<lparr>heap := (heap st)(nextFree st := c), nextFree := Suc (nextFree st),
                      enemyTeam := enemyTeam st @ [nextFree st]\<rparr>"
    by (simp add: st1_def alloc_def)
  show "length (enemyTeam st1) = Suc (length (enemyTeam st))"
    and "playerTeam st1 = playerTeam st" and "nextFree st1 = Suc (nextFree st)"
    and "\<forall>a < nextFree st. heap st1 a = heap st a"
    by (simp_all add: eq)
  from assms(1) have old: "\<forall>a \<in> set (playerTeam st @ enemyTeam st).
      a < nextFree st \<and> 0 < speed (heap st a)"
    by (simp add: teamsBuilt_def list_all_iff)
  have "\<forall>a \<in> set (playerTeam st1 @ enemyTeam st1). a < nextFree st1 \<and> 0 < speed (heap st1 a)"
  proof
    fix a assume "a \<in> set (playerTeam st1 @ enemyTeam st1)"
    then have "a \<in> set (playerTeam st @ enemyTeam st) \<or> a = nextFree st" by (auto simp: eq)
    then show "a < nextFree st1 \<and> 0 < speed (heap st1 a)"
    proof
      assume "a \<in> set (playerTeam st @ enemyTeam st)"
      with old have "a < nextFree st" "0 < speed (heap st a)" by simp_all
      then show ?thesis by (simp add: eq)
    next
      assume "a = nextFree st"
      with assms(2) show ?thesis by (simp add: eq)
    qed
  qed
  then show "teamsBuilt st1" by (simp add: teamsBuilt_def list_all_iff)
qed

text \<open>
  The first loop of \<open>generateEnemyTeam\<close> adds an enemy in every round, as soon as there is
  an unlocked character to draw.
\<close>

lemma enemiesWithDuplicates_returns:
  assumes "allAvailable \<noteq> []" and "length allAvailable < 2 ^ 32"
    and "\<forall>i. mathRandom (rand i)" and "teamsBuilt st"
  shows "\<exists>st'. enemiesWithDuplicates rounds rand allAvailable st = (None, st')
           \<and> teamsBuilt st'
           \<and> length (enemyTeam st') = length (enemyTeam st) + length rounds
           \<and> playerTeam st' = playerTeam st
           \<and> nextFree st \<le> nextFree st'
           \<and> (\<forall>a < nextFree st. heap st' a = heap st a)"
  using assms(4)
proof (induction rounds arbitrary: st)
  case Nil
  then show ?case by simp
next
  case (Cons i rounds)
  from assms(3) have "mathRandom (rand i)" by simp
  from pick_in_range [OF this assms(1,2)] obtain randomChar where
    p: "pick (rand i) allAvailable = Some randomChar" by blast
  define c0 where "c0 = clone (heap st randomChar)"
  define c1 where "c1 = (if inPlayerTeam st (cid c0) then c0\<lparr>cid := cid c0 @ enemySuffix i\<rparr> else c0)"
  define enemyChar where "enemyChar = (resetForBattle c1)\<lparr>isPlayer := Some False\<rparr>"
  define st1 where "st1 = (snd (alloc st enemyChar))
      \<lparr>enemyTeam := enemyTeam (snd (alloc st enemyChar)) @ [fst (alloc st enemyChar)]\<rparr>"
  have "speed enemyChar = speed c0"
    by (simp add: enemyChar_def c1_def resetForBattle_def)
  with clone_positive(1) [of "heap st randomChar"] have sp: "0 < speed enemyChar"
    by (simp add: c0_def)
  note s = enemy_step [OF Cons.prems sp, folded st1_def]
  have unfold: "enemiesWithDuplicates (i # rounds) rand allAvailable st
      = enemiesWithDuplicates rounds rand allAvailable st1"
    by (simp add: p Let_def c0_def c1_def enemyChar_def st1_def)
  from Cons.IH [OF s(1)] obtain st' where
    r: "enemiesWithDuplicates rounds rand allAvailable st1 = (None, st')"
    "teamsBuilt st'" "length (enemyTeam st') = length (enemyTeam st1) + length rounds"
    "playerTeam st' = playerTeam st1" "nextFree st1 \<le> nextFree st'"
    "\<forall>a < nextFree st1. heap st' a = heap st1 a"
    by blast
  have 1: "enemiesWithDuplicates (i # rounds) rand allAvailable st = (None, st')"
    by (simp only: unfold r(1))
  have 2: "length (enemyTeam st') = length (enemyTeam st) + length (i # rounds)"
    using r(3) s(2) by simp
  have 3: "playerTeam st' = playerTeam st" using r(4) s(3) by simp
  have 4: "nextFree st \<le> nextFree st'" using r(5) s(4) by simp
  have 5: "\<forall>a < nextFree st. heap st' a = heap st a" using r(6) s(4,5) by simp
  from 1 r(2) 2 3 4 5 show ?case by blast
qed

lemma removeFirstId_length:
  assumes "a \<in> set xs"
  shows "Suc (length (removeFirstId h (cid (h a)) xs)) = length xs"
  using assms by (induction xs) auto

text \<open>
  The second loop adds an enemy in every round, as long as there are at least as many
  characters to draw as rounds.
\<close>

lemma enemiesUnique_returns:
  assumes "\<forall>i. mathRandom (rand i)"
    and "length rounds \<le> length availableCharacters" and "length availableCharacters < 2 ^ 32"
    and "teamsBuilt st"
  shows "\<exists>st'. enemiesUnique rounds rand availableCharacters st = (None, st')
           \<and> teamsBuilt st'
           \<and> length (enemyTeam st') = length (enemyTeam st) + length rounds
           \<and> playerTeam st' = playerTeam st
           \<and> nextFree st \<le> nextFree st'
           \<and> (\<forall>a < nextFree st. heap st' a = heap st a)"
  using assms(2-4)
proof (induction rounds arbitrary: st availableCharacters)
  case Nil
  then show ?case by simp
next
  case (Cons i rounds)
  from Cons.prems(1) have ne: "availableCharacters \<noteq> []" by auto
  from assms(1) have "mathRandom (rand i)" by simp
  from pick_in_range [OF this ne Cons.prems(2)] obtain k where
    k: "k < length availableCharacters"
    and p: "pick (rand i) availableCharacters = Some (availableCharacters ! k)" by blast
  define randomChar where "randomChar = availableCharacters ! k"
  from k have mem: "randomChar \<in> set availableCharacters" by (simp add: randomChar_def)
  define enemyChar where
    "enemyChar = (resetForBattle (clone (heap st randomChar)))\<lparr>isPlayer := Some False\<rparr>"
  define st1 where "st1 = (snd (alloc st enemyChar))
      \<lparr>enemyTeam := enemyTeam (snd (alloc st enemyChar)) @ [fst (alloc st enemyChar)]\<rparr>"
  define rest where
    "rest = removeFirstId (heap st) (cid (heap st randomChar)) availableCharacters"
  have "speed enemyChar = speed (clone (heap st randomChar))"
    by (simp add: enemyChar_def resetForBattle_def)
  with clone_positive(1) [of "heap st randomChar"] have sp: "0 < speed enemyChar" by simp
  note s = enemy_step [OF Cons.prems(3) sp, folded st1_def]
  have unfold: "enemiesUnique (i # rounds) rand availableCharacters st
      = enemiesUnique rounds rand rest st1"
    by (simp add: p Let_def randomChar_def [symmetric] enemyChar_def st1_def rest_def)
  from removeFirstId_length [OF mem, of "heap st"]
  have len: "Suc (length rest) = length availableCharacters" by (simp add: rest_def)
  with Cons.prems(1,2) have "length rounds \<le> length rest" "length rest < 2 ^ 32" by simp_all
  from Cons.IH [OF this s(1)] obtain st' where
    r: "enemiesUnique rounds rand rest st1 = (None, st')"
    "teamsBuilt st'" "length (enemyTeam st') = length (enemyTeam st1) + length rounds"
    "playerTeam st' = playerTeam st1" "nextFree st1 \<le> nextFree st'"
    "\<forall>a < nextFree st1. heap st' a = heap st1 a"
    by blast
  have 1: "enemiesUnique (i # rounds) rand availableCharacters st = (None, st')"
    by (simp only: unfold r(1))
  have 2: "length (enemyTeam st') = length (enemyTeam st) + length (i # rounds)"
    using r(3) s(2) by simp
  have 3: "playerTeam st' = playerTeam st" using r(4) s(3) by simp
  have 4: "nextFree st \<le> nextFree st'" using r(5) s(4) by simp
  have 5: "\<forall>a < nextFree st. heap st' a = heap st a" using r(6) s(4,5) by simp
  from 1 r(2) 2 3 4 5 show ?case by blast
qed

text \<open>
  \<open>generateEnemyTeam\<close> builds three enemies as soon as the game holds an unlocked
  character, and throws when it holds none.
\<close>

lemma generateEnemyTeam_returns:
  assumes "list_ex (\<lambda>a. unlocked (heap st a)) gameCharacters"
    and "length gameCharacters < 2 ^ 32" and "\<forall>i. mathRandom (rand i)"
    and "list_all (\<lambda>a. a < nextFree st \<and> 0 < speed (heap st a)) (playerTeam st)"
  shows "\<exists>st'. generateEnemyTeam st gameCharacters rand = (None, st')
           \<and> teamsBuilt st' \<and> length (enemyTeam st') = 3
           \<and> playerTeam st' = playerTeam st
           \<and> (\<forall>a < nextFree st. heap st' a = heap st a)"
proof -
  define s0 where "s0 = st\<lparr>enemyTeam := []\<rparr>"
  have s0: "teamsBuilt s0" "enemyTeam s0 = []" "playerTeam s0 = playerTeam st"
    "nextFree s0 = nextFree st" "heap s0 = heap st"
    using assms(4) by (simp_all add: s0_def teamsBuilt_def)
  define available where "available =
    filter (\<lambda>a. unlocked (heap st a) \<and> \<not> inPlayerTeam st (cid (heap st a))) gameCharacters"
  define allAvailable where "allAvailable = filter (\<lambda>a. unlocked (heap st a)) gameCharacters"
  have rounds: "length [0 ..< TEAM_SIZE] = 3" by (simp add: TEAM_SIZE_def)
  have "length available \<le> length gameCharacters" by (simp add: available_def)
  with assms(2) have la: "length available < 2 ^ 32" by simp
  have "length allAvailable \<le> length gameCharacters" by (simp add: allAvailable_def)
  with assms(2) have lall: "length allAvailable < 2 ^ 32" by simp
  from assms(1) have ne: "allAvailable \<noteq> []"
    by (auto simp: allAvailable_def list_ex_iff filter_empty_conv)
  have "\<exists>st'. generateEnemyTeam st gameCharacters rand = (None, st')
           \<and> teamsBuilt st' \<and> length (enemyTeam st') = length (enemyTeam s0) + 3
           \<and> playerTeam st' = playerTeam s0 \<and> nextFree s0 \<le> nextFree st'
           \<and> (\<forall>a < nextFree s0. heap st' a = heap s0 a)"
  proof (cases "length available < TEAM_SIZE")
    case True
    then have "generateEnemyTeam st gameCharacters rand
        = enemiesWithDuplicates [0 ..< TEAM_SIZE] rand allAvailable s0"
      by (simp add: generateEnemyTeam_def Let_def available_def allAvailable_def s0_def)
    with enemiesWithDuplicates_returns [OF ne lall assms(3) s0(1), of "[0 ..< TEAM_SIZE]"]
    show ?thesis by (simp only: rounds)
  next
    case False
    then have g: "generateEnemyTeam st gameCharacters rand
        = enemiesUnique [0 ..< TEAM_SIZE] rand available s0"
      by (simp add: generateEnemyTeam_def Let_def available_def s0_def)
    from False have "length [0 ..< TEAM_SIZE] \<le> length available" by simp
    from enemiesUnique_returns [OF assms(3) this la s0(1)] g
    show ?thesis by (simp only: rounds)
  qed
  then obtain st' where r: "generateEnemyTeam st gameCharacters rand = (None, st')"
    "teamsBuilt st'" "length (enemyTeam st') = length (enemyTeam s0) + 3"
    "playerTeam st' = playerTeam s0" "\<forall>a < nextFree s0. heap st' a = heap s0 a"
    by blast
  with s0 show ?thesis by auto
qed

lemma generateEnemyTeam_throws:
  assumes "\<not> list_ex (\<lambda>a. unlocked (heap st a)) gameCharacters"
  shows "generateEnemyTeam st gameCharacters rand = (Some TypeError, st\<lparr>enemyTeam := []\<rparr>)"
proof -
  from assms have none: "filter (\<lambda>a. unlocked (heap st a)) gameCharacters = []"
    by (auto simp: list_ex_iff filter_empty_conv)
  then have none': "filter (\<lambda>a. unlocked (heap st a) \<and> \<not> inPlayerTeam st (cid (heap st a)))
      gameCharacters = []"
    by (auto simp: filter_empty_conv)
  have rounds: "[0 ..< TEAM_SIZE] = 0 # [1 ..< TEAM_SIZE]"
    by (simp add: TEAM_SIZE_def upt_conv_Cons)
  show ?thesis
    unfolding generateEnemyTeam_def Let_def none none' rounds
    by (simp add: TEAM_SIZE_def pick_empty)
qed

text \<open>
  \<open>setupBattle\<close> on a roster of any length. Its first step always yields one clone for
  each roster member.
\<close>

lemma setupBattle_clones:
  assumes "\<forall>a \<in> set roster. a < nextFree st"
  defines "st1 \<equiv> (snd (fold clonePlayer roster ([], st)))
                    \<lparr>playerTeam := fst (fold clonePlayer roster ([], st))\<rparr>"
  shows "map (heap st1) (playerTeam st1)
           = map (\<lambda>a. (resetForBattle (clone (heap st a)))\<lparr>isPlayer := Some True\<rparr>) roster"
    and "nextFree st \<le> nextFree st1" and "\<forall>a < nextFree st. heap st1 a = heap st a"
    and "list_all (\<lambda>a. a < nextFree st1 \<and> 0 < speed (heap st1 a)) (playerTeam st1)"
    and "battlePhase st1 = battlePhase st"
    and "length (playerTeam st1) = length roster"
proof -
  from fold_clonePlayer [OF assms(1), of "[]"] obtain h where
    f: "fold clonePlayer roster ([], st)
          = ([nextFree st ..< nextFree st + length roster],
             st\<lparr>heap := h, nextFree := nextFree st + length roster\<rparr>)"
    and old: "\<forall>a < nextFree st. h a = heap st a"
    and new: "\<forall>k < length roster. h (nextFree st + k)
                = (resetForBattle (clone (heap st (roster ! k))))\<lparr>isPlayer := Some True\<rparr>"
    by auto
  have eq: "st1 = st\<lparr>heap := h, nextFree := nextFree st + length roster,
                      playerTeam := [nextFree st ..< nextFree st + length roster]\<rparr>"
    by (simp add: st1_def f)
  show "map (heap st1) (playerTeam st1)
           = map (\<lambda>a. (resetForBattle (clone (heap st a)))\<lparr>isPlayer := Some True\<rparr>) roster"
    using new by (intro nth_equalityI) (simp_all add: eq)
  show "nextFree st \<le> nextFree st1" by (simp add: eq)
  show "\<forall>a < nextFree st. heap st1 a = heap st a" using old by (simp add: eq)
  show "battlePhase st1 = battlePhase st" by (simp add: eq)
  show "length (playerTeam st1) = length roster" by (simp add: eq)
  have "\<forall>a \<in> set (playerTeam st1). a < nextFree st1 \<and> 0 < speed (heap st1 a)"
  proof
    fix a assume "a \<in> set (playerTeam st1)"
    then have a: "nextFree st \<le> a" "a < nextFree st + length roster" by (simp_all add: eq)
    then obtain k where k: "a = nextFree st + k" "k < length roster"
      by (metis add_diff_inverse_nat less_diff_conv2 not_less add.commute)
    from new k have "speed (heap st1 a) = speed (clone (heap st (roster ! k)))"
      by (simp add: eq resetForBattle_def)
    with clone_positive(1) [of "heap st (roster ! k)"] a
    show "a < nextFree st1 \<and> 0 < speed (heap st1 a)" by (simp add: eq)
  qed
  then show "list_all (\<lambda>a. a < nextFree st1 \<and> 0 < speed (heap st1 a)) (playerTeam st1)"
    by (simp add: list_all_iff)
qed

lemma fold_zero_bars_gen:
  assumes "a \<in> set xs \<or> m (f a) = Some (Num 0)"
  shows "fold (\<lambda>a b. b(f a \<mapsto> Num 0)) xs m (f a) = Some (Num 0)"
  using assms by (induction xs arbitrary: m) auto

lemma fold_zero_bars:
  assumes "a \<in> set xs"
  shows "fold (\<lambda>a b. b(f a \<mapsto> Num 0)) xs m (f a) = Some (Num 0)"
  using assms by (simp add: fold_zero_bars_gen)

text \<open>\<open>createTurnQueue\<close> returns as soon as every living member has a positive speed.\<close>

lemma createTurnQueue_returns:
  assumes "\<forall>a \<in> set (allAlive st). 0 < speed (heap st a)"
  shows "\<exists>b ts. createTurnQueue st =
           Some (st\<lparr>actionBars := b, upcomingTurns := ts, turnQueue := take 6 ts\<rparr>)"
proof -
  define b where "b = fold (\<lambda>a b. b(charKey st a \<mapsto> Num 0)) (allAlive st) Map.empty"
  define st1 where "st1 = st\<lparr>actionBars := b\<rparr>"
  have same: "allAlive st1 = allAlive st" "heap st1 = heap st" "charKey st1 = charKey st"
    "actionBars st1 = b"
    by (simp_all add: st1_def allAlive_def alive_def charKey_def)
  have "\<forall>a \<in> set (allAlive st1).
          0 < speed (heap st1 a) \<and> (\<exists>v. actionBars st1 (charKey st1 a) = Some (Num v))"
    unfolding same using assms fold_zero_bars [of _ "allAlive st" "charKey st"]
    by (auto simp: b_def)
  from calculateUpcomingTurns_returns [OF this, of 20]
  obtain ts where ts: "calculateUpcomingTurns st1 20 = Some (st1\<lparr>upcomingTurns := ts\<rparr>)" by blast
  have "createTurnQueue st =
     (case calculateUpcomingTurns st1 20 of
           None \<Rightarrow> None
         | Some st2 \<Rightarrow> Some (st2\<lparr>turnQueue := take 6 (upcomingTurns st2)\<rparr>))"
    unfolding createTurnQueue_def st1_def b_def Let_def ..
  also have "\<dots> = Some (st\<lparr>actionBars := b, upcomingTurns := ts, turnQueue := take 6 ts\<rparr>)"
    unfolding ts by (simp add: st1_def)
  finally show ?thesis by blast
qed

text \<open>With an unlocked character to draw, \<open>setupBattle\<close> succeeds whatever the roster's length.\<close>

lemma setupBattle_succeeds:
  assumes "\<forall>a \<in> set (roster @ gameCharacters). a < nextFree st"
    and "length gameCharacters < 2 ^ 32" and "\<forall>i. mathRandom (rand i)"
    and "list_ex (\<lambda>a. unlocked (heap st a)) gameCharacters"
  shows "\<exists>r st'. setupBattle st roster gameCharacters rand = Some (Inr r, st')
      \<and> map (heap st') (playerTeam st')
          = map (\<lambda>a. (resetForBattle (clone (heap st a)))\<lparr>isPlayer := Some True\<rparr>) roster
      \<and> length (enemyTeam st') = 3
      \<and> resultPlayerTeam r = playerTeam st' \<and> resultEnemyTeam r = enemyTeam st'
      \<and> battlePhase st' = Battle"
proof -
  define st1 where "st1 = (snd (fold clonePlayer roster ([], st)))
                    \<lparr>playerTeam := fst (fold clonePlayer roster ([], st))\<rparr>"
  from assms(1) have ro: "\<forall>a \<in> set roster. a < nextFree st" by simp
  note c = setupBattle_clones [OF ro, folded st1_def]
  have "\<forall>a \<in> set gameCharacters. heap st1 a = heap st a" using assms(1) c(3) by simp
  then have "list_ex (\<lambda>a. unlocked (heap st1 a)) gameCharacters
      = list_ex (\<lambda>a. unlocked (heap st a)) gameCharacters"
    by (simp add: list_ex_iff)
  with assms(4) have un: "list_ex (\<lambda>a. unlocked (heap st1 a)) gameCharacters" by simp
  from generateEnemyTeam_returns [OF un assms(2,3) c(4)] obtain st2 where
    g: "generateEnemyTeam st1 gameCharacters rand = (None, st2)" "teamsBuilt st2"
      "length (enemyTeam st2) = 3" "playerTeam st2 = playerTeam st1"
      "\<forall>a < nextFree st1. heap st2 a = heap st1 a"
    by blast
  from g(2) have "\<forall>a \<in> set (allAlive st2). 0 < speed (heap st2 a)"
    by (auto simp: teamsBuilt_def allAlive_def list_all_iff)
  from createTurnQueue_returns [OF this] obtain b ts where
    q: "createTurnQueue st2 =
          Some (st2\<lparr>actionBars := b, upcomingTurns := ts, turnQueue := take 6 ts\<rparr>)"
    by blast
  define st4 where "st4 = st2\<lparr>actionBars := b, upcomingTurns := ts, turnQueue := take 6 ts,
      battlePhase := Battle, battleLog := [], attackButtonsDisabled := False,
      isProcessingTurn := False, selectedAttackObj := None\<rparr>"
  define r where "r = \<lparr>resultPlayerTeam = playerTeam st4, resultEnemyTeam = enemyTeam st4,
      firstCharacter = getCurrentCharacter st4\<rparr>"
  have res: "setupBattle st roster gameCharacters rand = Some (Inr r, st4)"
    unfolding setupBattle_def Let_def st1_def [symmetric] g(1) fst_conv snd_conv
    by (simp add: q r_def st4_def)
  from c(4) have "\<forall>a \<in> set (playerTeam st1). heap st2 a = heap st1 a"
    using g(5) by (simp add: list_all_iff)
  then have "map (heap st2) (playerTeam st1) = map (heap st1) (playerTeam st1)" by simp
  with c(1) g(4) have 1: "map (heap st4) (playerTeam st4)
          = map (\<lambda>a. (resetForBattle (clone (heap st a)))\<lparr>isPlayer := Some True\<rparr>) roster"
    by (simp add: st4_def)
  have 2: "length (enemyTeam st4) = 3" using g(3) by (simp add: st4_def)
  have 3: "resultPlayerTeam r = playerTeam st4" "resultEnemyTeam r = enemyTeam st4"
    by (simp_all add: r_def)
  have 4: "battlePhase st4 = Battle" by (simp add: st4_def)
  show ?thesis
    by (rule exI [of _ r], rule exI [of _ st4]) (intro conjI res 1 2 3 4)
qed

text \<open>
  Without one it throws, with the player team already overwritten, whatever the roster's
  length.
\<close>

lemma setupBattle_throws:
  assumes "\<forall>a \<in> set (roster @ gameCharacters). a < nextFree st"
    and "\<not> list_ex (\<lambda>a. unlocked (heap st a)) gameCharacters"
  shows "\<exists>st'. setupBattle st roster gameCharacters rand = Some (Inl TypeError, st')
      \<and> map (heap st') (playerTeam st')
          = map (\<lambda>a. (resetForBattle (clone (heap st a)))\<lparr>isPlayer := Some True\<rparr>) roster
      \<and> enemyTeam st' = [] \<and> battlePhase st' = battlePhase st"
proof -
  define st1 where "st1 = (snd (fold clonePlayer roster ([], st)))
                    \<lparr>playerTeam := fst (fold clonePlayer roster ([], st))\<rparr>"
  from assms(1) have ro: "\<forall>a \<in> set roster. a < nextFree st" by simp
  note c = setupBattle_clones [OF ro, folded st1_def]
  have "\<forall>a \<in> set gameCharacters. heap st1 a = heap st a" using assms(1) c(3) by simp
  then have "list_ex (\<lambda>a. unlocked (heap st1 a)) gameCharacters
      = list_ex (\<lambda>a. unlocked (heap st a)) gameCharacters"
    by (simp add: list_ex_iff)
  with assms(2) have un: "\<not> list_ex (\<lambda>a. unlocked (heap st1 a)) gameCharacters" by simp
  note g = generateEnemyTeam_throws [OF un, of rand]
  have res: "setupBattle st roster gameCharacters rand
      = Some (Inl TypeError, st1\<lparr>enemyTeam := []\<rparr>)"
    unfolding setupBattle_def Let_def st1_def [symmetric] g fst_conv snd_conv by simp
  have 1: "map (heap (st1\<lparr>enemyTeam := []\<rparr>)) (playerTeam (st1\<lparr>enemyTeam := []\<rparr>))
          = map (\<lambda>a. (resetForBattle (clone (heap st a)))\<lparr>isPlayer := Some True\<rparr>) roster"
    using c(1) by simp
  have 2: "enemyTeam (st1\<lparr>enemyTeam := []\<rparr>) = []" by simp
  have 3: "battlePhase (st1\<lparr>enemyTeam := []\<rparr>) = battlePhase st" using c(5) by simp
  show ?thesis
    by (rule exI [of _ "st1\<lparr>enemyTeam := []\<rparr>"]) (intro conjI res 1 2 3)
qed


subsection \<open>A new game with two characters selected\<close>

lemma opening_chars:
  "openingHeap 100 = GameCharacter ''Red'' [Red] True"
  "openingHeap 101 = GameCharacter ''Orange'' [Orange] True"
  "openingHeap 102 = GameCharacter ''Yellow'' [Yellow] True"
  "openingHeap 103 = GameCharacter ''Green'' [Green] True"
  "openingHeap 104 = GameCharacter ''Blue'' [Blue] True"
  "openingHeap 105 = GameCharacter ''Purple'' [Purple] True"
  by (simp_all add: openingHeap_def generateCharacters_def GENES_def)

lemma opening_stats:
  "GameCharacter ''Red'' [Red] True = \<lparr>cid = ''Red'', genes = [Red], unlocked = True,
      hp = 120, maxHp = 120, attack = 120, speed = 40, isPlayer = None\<rparr>"
  "GameCharacter ''Orange'' [Orange] True = \<lparr>cid = ''Orange'', genes = [Orange], unlocked = True,
      hp = 240, maxHp = 240, attack = 80, speed = 40, isPlayer = None\<rparr>"
  "GameCharacter ''Yellow'' [Yellow] True = \<lparr>cid = ''Yellow'', genes = [Yellow], unlocked = True,
      hp = 360, maxHp = 360, attack = 40, speed = 40, isPlayer = None\<rparr>"
  "GameCharacter ''Green'' [Green] True = \<lparr>cid = ''Green'', genes = [Green], unlocked = True,
      hp = 240, maxHp = 240, attack = 40, speed = 80, isPlayer = None\<rparr>"
  "GameCharacter ''Blue'' [Blue] True = \<lparr>cid = ''Blue'', genes = [Blue], unlocked = True,
      hp = 120, maxHp = 120, attack = 40, speed = 120, isPlayer = None\<rparr>"
  "GameCharacter ''Purple'' [Purple] True = \<lparr>cid = ''Purple'', genes = [Purple], unlocked = True,
      hp = 120, maxHp = 120, attack = 80, speed = 80, isPlayer = None\<rparr>"
  by (simp_all add: GameCharacter_def getStatDistribution_def CHARACTER_STATS_def)


lemma opening_locked:
  "list_all (\<lambda>a. \<not> unlocked (openingHeap a)) [106 ..< 142]"
  by (simp add: upt_rec_numeral openingHeap_def generateCharacters_def GENES_def
      GameCharacter_def split: prod.splits)

lemma opening_clones:
  "fold clonePlayer [100, 104] ([], openingBattle)
     = ([142, 143], openingPlayers\<lparr>playerTeam := []\<rparr>)"
  by (simp add: clonePlayer_def alloc_def Let_def clone_def resetForBattle_def
      opening_chars opening_stats openingBattle_def openingPlayers_def)

lemma opening_registry: "[100 ..< 142] = [100, 101, 102, 103, 104, 105] @ [106 ..< 142]"
  by (simp add: upt_rec_numeral)

lemma openingPlayers_heap:
  "a < 142 \<Longrightarrow> heap openingPlayers a = openingHeap a"
  by (simp add: openingPlayers_def)

lemma openingPlayers_inTeam:
  "inPlayerTeam openingPlayers i \<longleftrightarrow> i = ''Red'' \<or> i = ''Blue''"
  by (auto simp: inPlayerTeam_def openingPlayers_def)

lemma opening_available:
  "filter (\<lambda>a. unlocked (heap openingPlayers a)
                \<and> \<not> inPlayerTeam openingPlayers (cid (heap openingPlayers a))) [100 ..< 142]
     = [101, 102, 103, 105]"
proof -
  have "filter (\<lambda>a. unlocked (heap openingPlayers a)
                \<and> \<not> inPlayerTeam openingPlayers (cid (heap openingPlayers a))) [106 ..< 142] = []"
    using opening_locked
    by (auto simp: filter_empty_conv list_all_iff openingPlayers_heap)
  moreover have "filter (\<lambda>a. unlocked (heap openingPlayers a)
                \<and> \<not> inPlayerTeam openingPlayers (cid (heap openingPlayers a)))
       [100, 101, 102, 103, 104, 105] = [101, 102, 103, 105]"
    by (simp add: openingPlayers_heap opening_chars opening_stats openingPlayers_inTeam)
  ultimately show ?thesis
    by (simp only: opening_registry filter_append append_Nil2)
qed

lemma opening_enemies:
  "generateEnemyTeam openingPlayers [100 ..< 142] (\<lambda>_. 0) = (None, openingTeams)"
proof -
  have h: "heap openingPlayers 101 = openingHeap 101" "heap openingPlayers 102 = openingHeap 102"
    "heap openingPlayers 103 = openingHeap 103" "heap openingPlayers 105 = openingHeap 105"
    by (simp_all add: openingPlayers_heap)
  have rounds: "[0 ..< TEAM_SIZE] = [0, 1, 2]"
    by (simp add: TEAM_SIZE_def upt_conv_Cons numeral_3_eq_3 numeral_2_eq_2)
  show ?thesis
    unfolding generateEnemyTeam_def Let_def opening_available rounds
    by (simp add: TEAM_SIZE_def pick_zero alloc_def Let_def clone_def resetForBattle_def
        openingPlayers_def openingTeams_def opening_chars opening_stats)
qed

lemma openingTeams_alive:
  "\<forall>a \<in> set (allAlive openingTeams). 0 < speed (heap openingTeams a)"
  by (simp add: allAlive_def openingTeams_def openingPlayers_def)

text \<open>
  C8, as the specification has it, does not hold: \<open>setupBattle\<close> called on a new game
  with the roster Red, Blue (two members) does not fail. It returns the two clones as the
  player team and three enemies, and the battle is in phase \<open>Battle\<close>.
\<close>

theorem setupBattle_two_members:
  "(case setupBattle openingBattle [100, 104] [100 ..< 142] (\<lambda>_. 0) of
      Some (Inr r, st') \<Rightarrow>
        resultPlayerTeam r = [142, 143] \<and> resultEnemyTeam r = [144, 145, 146]
        \<and> playerTeam st' = [142, 143] \<and> enemyTeam st' = [144, 145, 146]
        \<and> battlePhase st' = Battle \<and> battlePhase openingBattle = Setup
        \<and> playerTeam openingBattle = []
    | _ \<Rightarrow> False)"
proof -
  from createTurnQueue_returns [OF openingTeams_alive]
  obtain b ts where q: "createTurnQueue openingTeams =
      Some (openingTeams\<lparr>actionBars := b, upcomingTurns := ts, turnQueue := take 6 ts\<rparr>)"
    by blast
  have st1: "(openingPlayers\<lparr>playerTeam := []\<rparr>)\<lparr>playerTeam := [142, 143]\<rparr> = openingPlayers"
    by (simp add: openingPlayers_def)
  have teams: "playerTeam openingTeams = [142, 143]" "enemyTeam openingTeams = [144, 145, 146]"
    by (simp_all add: openingTeams_def openingPlayers_def)
  have "setupBattle openingBattle [100, 104] [100 ..< 142] (\<lambda>_. 0) =
      Some (Inr \<lparr>resultPlayerTeam = [142, 143], resultEnemyTeam = [144, 145, 146],
                 firstCharacter = first ts\<rparr>,
            openingTeams\<lparr>actionBars := b, upcomingTurns := ts, turnQueue := take 6 ts,
              battlePhase := Battle, battleLog := [], attackButtonsDisabled := False,
              isProcessingTurn := False, selectedAttackObj := None\<rparr>)"
    unfolding setupBattle_def Let_def opening_clones fst_conv snd_conv st1 opening_enemies
    by (simp add: q teams getCurrentCharacter_def first_def)
  then show ?thesis
    by (simp add: teams openingBattle_def)
qed

lemma generated_ids:
  "list_all (\<lambda>c. cid c \<in> set (map fst CHARACTER_STATS)) generateCharacters"
  by code_simp

lemma generated_length: "length generateCharacters = 42"
  by (simp add: generateCharacters_def GENES_def)

lemma opening_table:
  assumes "\<forall>a \<in> set as. 100 \<le> a \<and> a < 142"
  shows "tableCharacters openingBattle as"
proof -
  have "a < nextFree openingBattle \<and> cid (heap openingBattle a) \<in> set (map fst CHARACTER_STATS)"
    if "a \<in> set as" for a
  proof -
    from that assms have a: "100 \<le> a" "a < 142" by simp_all
    then have "a - 100 < length generateCharacters" by (simp add: generated_length)
    then have "generateCharacters ! (a - 100) \<in> set generateCharacters" by (rule nth_mem)
    with generated_ids have "cid (generateCharacters ! (a - 100)) \<in> set (map fst CHARACTER_STATS)"
      unfolding list_all_iff by blast
    with a show ?thesis by (simp add: openingBattle_def openingHeap_def)
  qed
  then show ?thesis by (simp add: tableCharacters_def list_all_iff)
qed

lemma opening_unlocked: "list_ex (\<lambda>a. unlocked (heap openingBattle a)) [100 ..< 142]"
proof -
  have "unlocked (heap openingBattle 100)"
    by (simp add: openingBattle_def opening_chars opening_stats)
  moreover have "(100::nat) \<in> set [100 ..< 142]" by simp
  ultimately show ?thesis unfolding list_ex_iff by blast
qed

lemma opening_roster_clones:
  "map (\<lambda>a. (resetForBattle (clone (heap openingBattle a)))\<lparr>isPlayer := Some True\<rparr>) [100, 104]
     = [\<lparr>cid = ''Red'', genes = [Red], unlocked = True,
           hp = 120, maxHp = 120, attack = 120, speed = 40, isPlayer = Some True\<rparr>,
        \<lparr>cid = ''Blue'', genes = [Blue], unlocked = True,
           hp = 120, maxHp = 120, attack = 40, speed = 120, isPlayer = Some True\<rparr>]"
  by (simp add: openingBattle_def opening_chars opening_stats clone_def resetForBattle_def)


text \<open>
  C8, as the code has it. \<open>setupBattle\<close> does not look at the length of the roster. For a
  roster of any length, taken with the game's characters from the store (characters of
  the stat table) and with draws that \<open>Math.random()\<close> can return, it overwrites the
  player team with one clone for each roster member, reset and marked as the player's;
  then, if the game holds an unlocked character, it generates three enemies, sets the
  phase to \<open>Battle\<close> and returns the two teams; if it holds none, it throws a
  \<open>TypeError\<close> with the enemy team emptied and the phase as it was. The length of the
  roster is checked by the caller: \<open>startBattle\<close> returns at once, without a failure
  value and with the battle state as it was, whenever the selection does not hold
  exactly 3 ids.
\<close>

theorem setupBattle_any_roster_length:
  assumes "tableCharacters st (roster @ gameCharacters)"
    and "length gameCharacters < 2 ^ 32" and "\<forall>i. mathRandom (rand i)"
  shows "(list_ex (\<lambda>a. unlocked (heap st a)) gameCharacters \<longrightarrow>
           (\<exists>r st'. setupBattle st roster gameCharacters rand = Some (Inr r, st')
              \<and> map (heap st') (playerTeam st')
                  = map (\<lambda>a. (resetForBattle (clone (heap st a)))\<lparr>isPlayer := Some True\<rparr>) roster
              \<and> length (enemyTeam st') = 3
              \<and> resultPlayerTeam r = playerTeam st' \<and> resultEnemyTeam r = enemyTeam st'
              \<and> battlePhase st' = Battle))
       \<and> (\<not> list_ex (\<lambda>a. unlocked (heap st a)) gameCharacters \<longrightarrow>
           (\<exists>st'. setupBattle st roster gameCharacters rand = Some (Inl TypeError, st')
              \<and> map (heap st') (playerTeam st')
                  = map (\<lambda>a. (resetForBattle (clone (heap st a)))\<lparr>isPlayer := Some True\<rparr>) roster
              \<and> enemyTeam st' = [] \<and> battlePhase st' = battlePhase st))
       \<and> (length (selectedBattleTeam g) \<noteq> 3 \<longrightarrow> startBattle g st rand = Some (Inr None, st))"
proof -
  from assms(1) have al: "\<forall>a \<in> set (roster @ gameCharacters). a < nextFree st"
    by (simp add: tableCharacters_def list_all_iff)
  note 1 = setupBattle_succeeds [OF al assms(2,3)]
  note 2 = setupBattle_throws [OF al]
  have 3: "length (selectedBattleTeam g) \<noteq> 3 \<Longrightarrow> startBattle g st rand = Some (Inr None, st)"
    by (simp add: startBattle_def)
  from 1 2 3 show ?thesis by (intro conjI impI)
qed

theorem setupBattle_any_roster_length_witness:
  "tableCharacters openingBattle ([100, 104] @ [100 ..< 142])
   \<and> length [100 ..< 142 :: nat] < 2 ^ 32 \<and> mathRandom 0
   \<and> list_ex (\<lambda>a. unlocked (heap openingBattle a)) [100 ..< 142]
   \<and> (\<exists>r st'. setupBattle openingBattle [100, 104] [100 ..< 142] (\<lambda>_. 0) = Some (Inr r, st')
         \<and> map (heap st') (playerTeam st')
             = [\<lparr>cid = ''Red'', genes = [Red], unlocked = True,
                   hp = 120, maxHp = 120, attack = 120, speed = 40, isPlayer = Some True\<rparr>,
                \<lparr>cid = ''Blue'', genes = [Blue], unlocked = True,
                   hp = 120, maxHp = 120, attack = 40, speed = 120, isPlayer = Some True\<rparr>]
         \<and> length (enemyTeam st') = 3
         \<and> resultPlayerTeam r = playerTeam st' \<and> resultEnemyTeam r = enemyTeam st'
         \<and> battlePhase st' = Battle)
   \<and> \<not> list_ex (\<lambda>a. unlocked (heap openingBattle a)) []
   \<and> (\<exists>st'. setupBattle openingBattle [100, 104] [] (\<lambda>_. 0) = Some (Inl TypeError, st')
         \<and> length (playerTeam st') = 2 \<and> enemyTeam st' = [] \<and> battlePhase st' = Setup)
   \<and> length (selectedBattleTeam openingGame) \<noteq> 3
   \<and> startBattle openingGame openingBattle (\<lambda>_. 0) = Some (Inr None, openingBattle)"
proof -
  have l: "length [100 ..< 142 :: nat] < 2 ^ 32" by simp
  have l0: "length ([] :: addr list) < 2 ^ 32" by simp
  have m: "\<forall>i :: nat. mathRandom ((\<lambda>_. 0) i)" by (simp add: mathRandom_zero)
  have n: "\<not> list_ex (\<lambda>a. unlocked (heap openingBattle a)) []" by simp
  have s: "length (selectedBattleTeam openingGame) \<noteq> 3" by (simp add: openingGame_def)
  have t: "tableCharacters openingBattle ([100, 104] @ [100 ..< 142])"
    by (rule opening_table) auto
  have t0: "tableCharacters openingBattle ([100, 104] @ [])"
    by (rule opening_table) auto
  note T = setupBattle_any_roster_length [OF t l m, of openingGame]
  note U = setupBattle_any_roster_length [OF t0 l0 m, of openingGame]
  from T opening_unlocked have 1:
    "\<exists>r st'. setupBattle openingBattle [100, 104] [100 ..< 142] (\<lambda>_. 0) = Some (Inr r, st')
         \<and> map (heap st') (playerTeam st')
             = [\<lparr>cid = ''Red'', genes = [Red], unlocked = True,
                   hp = 120, maxHp = 120, attack = 120, speed = 40, isPlayer = Some True\<rparr>,
                \<lparr>cid = ''Blue'', genes = [Blue], unlocked = True,
                   hp = 120, maxHp = 120, attack = 40, speed = 120, isPlayer = Some True\<rparr>]
         \<and> length (enemyTeam st') = 3
         \<and> resultPlayerTeam r = playerTeam st' \<and> resultEnemyTeam r = enemyTeam st'
         \<and> battlePhase st' = Battle"
    unfolding opening_roster_clones by blast
  from U n obtain st' where u:
    "setupBattle openingBattle [100, 104] [] (\<lambda>_. 0) = Some (Inl TypeError, st')"
    "map (heap st') (playerTeam st')
       = map (\<lambda>a. (resetForBattle (clone (heap openingBattle a)))\<lparr>isPlayer := Some True\<rparr>)
           [100, 104]"
    "enemyTeam st' = []" "battlePhase st' = battlePhase openingBattle"
    by blast
  from u(2) have "length (map (heap st') (playerTeam st')) = 2" by simp
  then have "length (playerTeam st') = 2" by simp
  moreover have "battlePhase openingBattle = Setup" by (simp add: openingBattle_def)
  ultimately have 2:
    "\<exists>st'. setupBattle openingBattle [100, 104] [] (\<lambda>_. 0) = Some (Inl TypeError, st')
         \<and> length (playerTeam st') = 2 \<and> enemyTeam st' = [] \<and> battlePhase st' = Setup"
    using u by auto
  from T s have 3: "startBattle openingGame openingBattle (\<lambda>_. 0) = Some (Inr None, openingBattle)"
    by blast
  from t l mathRandom_zero opening_unlocked 1 n 2 s 3 show ?thesis
    by (intro conjI)
qed

end
